theory Spec2Isabelle
  imports Main "HOL-Library.Word"
begin

unbundle bit_operations_syntax

section \<open>Errors, events and options\<close>

text \<open>
  The errors a caller of the package can see. \<open>EOF\<close> is \<open>io.EOF\<close>; \<open>ErrIdleTimeout\<close>
  and \<open>ErrWaitTimeout\<close> are the package's exported errors; \<open>errTimeout\<close> is the
  package-private value that \<open>waitForEventWithTimeout\<close> returns; \<open>OsError\<close> stands for
  the errors of \<open>os.Stat\<close>, \<open>os.Open\<close> and \<open>File.Read\<close> (the specification's
  FileAccessError); \<open>WatcherError\<close> for what arrives on the watcher's error channel (the
  specification's NotificationError).
\<close>

datatype errno = ENOENT | EACCES | EISDIR | EBADF | EINVAL

datatype error = EOF | ErrIdleTimeout | ErrWaitTimeout | errTimeout
  | OsError errno | WatcherError nat

type_synonym byte = "8 word"
type_synonym path = string

text \<open>\<open>fsnotify.Op\<close> is a \<open>uint32\<close> bit mask.\<close>

type_synonym Op = "32 word"

definition fsnotify_Create :: Op where "fsnotify_Create = 1"
definition fsnotify_Write :: Op where "fsnotify_Write = 2"
definition fsnotify_Remove :: Op where "fsnotify_Remove = 4"
definition fsnotify_Rename :: Op where "fsnotify_Rename = 8"
definition fsnotify_Chmod :: Op where "fsnotify_Chmod = 16"

text \<open>\<open>Op.Has\<close> of fsnotify: \<open>o&h == h\<close>.\<close>

definition Has :: "Op \<Rightarrow> Op \<Rightarrow> bool" where
  "Has e h = (e AND h = h)"

record Event =
  Name :: string
  Op :: Op

text \<open>options.go: the \<open>Options\<close> struct; durations are \<open>time.Duration\<close> (nanoseconds).\<close>

record Options =
  WaitForFile :: bool
  WaitForFileTimeout :: int
  CloseOnDelete :: bool
  CloseOnTruncate :: bool
  IdleTimeout :: int
  TreatTimeoutsAsEOF :: bool

type_synonym Option = "Options \<Rightarrow> Options"

definition WithWaitForFile :: "bool \<Rightarrow> int \<Rightarrow> Option" where
  "WithWaitForFile wait timeout opts = opts\<lparr>WaitForFile := wait, WaitForFileTimeout := timeout\<rparr>"

definition WithCloseOnDelete :: "bool \<Rightarrow> Option" where
  "WithCloseOnDelete close opts = opts\<lparr>CloseOnDelete := close\<rparr>"

definition WithCloseOnTruncate :: "bool \<Rightarrow> Option" where
  "WithCloseOnTruncate close opts = opts\<lparr>CloseOnTruncate := close\<rparr>"

definition WithIdleTimeout :: "int \<Rightarrow> Option" where
  "WithIdleTimeout timeout opts = opts\<lparr>IdleTimeout := timeout\<rparr>"

definition WithTimeoutsAsEOF :: "bool \<Rightarrow> Option" where
  "WithTimeoutsAsEOF timeoutsAsEOF opts = opts\<lparr>TreatTimeoutsAsEOF := timeoutsAsEOF\<rparr>"

definition DefaultOptions :: "Option list" where
  "DefaultOptions = [WithWaitForFile True 0, WithCloseOnDelete False]"

text \<open>The zero value \<open>&Options{}\<close>.\<close>

definition zero_Options :: Options where
  "zero_Options = \<lparr>WaitForFile = False, WaitForFileTimeout = 0, CloseOnDelete = False,
     CloseOnTruncate = False, IdleTimeout = 0, TreatTimeoutsAsEOF = False\<rparr>"

section \<open>The world outside the reader\<close>

text \<open>
  The reader talks to the operating system (\<open>os.Stat\<close>, \<open>os.Open\<close>, \<open>File.Read\<close>,
  \<open>File.Close\<close>) and to an fsnotify watcher. The file system is a name table from paths
  to inode numbers and a table of inodes; an open handle is a descriptor in the table
  \<open>fds\<close>, holding the inode it was opened on and its read position, so a handle keeps
  reading the file it was opened on after the path is removed or renamed.

  Other processes change the file system and the watcher delivers events, errors and
  timer expiries: \<open>feed\<close> lists, in order, what happens while the reader is blocked in
  the \<open>select\<close> of \<open>waitForEventWithTimeout\<close>. When the feed is used up nothing happens
  any more, and a reader waiting without a timer waits forever.
\<close>

record inode =
  i_dir :: bool
  i_readable :: bool
  i_data :: "byte list"

datatype fs_action =
    FsCreate path
  | FsMkdir path
  | FsAppend path "byte list"
  | FsTruncate path nat
  | FsRemove path
  | FsRename path path
  | FsChmod path bool

datatype env_item =
    FsChange fs_action
  | Deliver Event
  | DeliverErr nat
  | TimerFires

record world =
  names :: "path \<rightharpoonup> nat"
  inodes :: "nat \<rightharpoonup> inode"
  next_ino :: nat
  fds :: "nat \<rightharpoonup> nat \<times> nat"
  next_fd :: nat
  feed :: "env_item list"
  new_watcher_error :: "error option"
  watcher_close_error :: "error option"
  watcher_closed :: bool

definition update_inode :: "path \<Rightarrow> (inode \<Rightarrow> inode) \<Rightarrow> world \<Rightarrow> world" where
  "update_inode fp f w =
     (case names w fp of None \<Rightarrow> w
      | Some i \<Rightarrow> (case inodes w i of None \<Rightarrow> w
          | Some nd \<Rightarrow> w\<lparr>inodes := (inodes w)(i \<mapsto> f nd)\<rparr>))"

definition new_inode :: "path \<Rightarrow> bool \<Rightarrow> world \<Rightarrow> world" where
  "new_inode fp d w =
     (case names w fp of Some i \<Rightarrow> w
      | None \<Rightarrow> w\<lparr>names := (names w)(fp \<mapsto> next_ino w),
                  inodes := (inodes w)(next_ino w \<mapsto> \<lparr>i_dir = d, i_readable = True, i_data = []\<rparr>),
                  next_ino := Suc (next_ino w)\<rparr>)"

fun apply_fs :: "fs_action \<Rightarrow> world \<Rightarrow> world" where
  "apply_fs (FsCreate fp) w = new_inode fp False w"
| "apply_fs (FsMkdir fp) w = new_inode fp True w"
| "apply_fs (FsAppend fp bs) w = update_inode fp (\<lambda>nd. nd\<lparr>i_data := i_data nd @ bs\<rparr>) w"
| "apply_fs (FsTruncate fp n) w =
     update_inode fp (\<lambda>nd. nd\<lparr>i_data := take n (i_data nd) @ replicate (n - length (i_data nd)) 0\<rparr>) w"
| "apply_fs (FsRemove fp) w = w\<lparr>names := (names w)(fp := None)\<rparr>"
| "apply_fs (FsRename fp fq) w =
     (case names w fp of None \<Rightarrow> w
      | Some i \<Rightarrow> w\<lparr>names := (names w)(fp := None, fq \<mapsto> i)\<rparr>)"
| "apply_fs (FsChmod fp b) w = update_inode fp (\<lambda>nd. nd\<lparr>i_readable := b\<rparr>) w"

text \<open>\<open>os.Stat(path)\<close> followed by \<open>fileInfo.Size()\<close>; a directory reports 4096.\<close>

definition os_Stat_Size :: "path \<Rightarrow> world \<Rightarrow> error + int" where
  "os_Stat_Size fp w =
     (case names w fp of None \<Rightarrow> Inl (OsError ENOENT)
      | Some i \<Rightarrow> (case inodes w i of None \<Rightarrow> Inl (OsError ENOENT)
          | Some nd \<Rightarrow> Inr (if i_dir nd then 4096 else int (length (i_data nd)))))"

text \<open>\<open>os.Open(path)\<close>: a new descriptor at position 0.\<close>

definition os_Open :: "path \<Rightarrow> world \<Rightarrow> (error + nat) \<times> world" where
  "os_Open fp w =
     (case names w fp of None \<Rightarrow> (Inl (OsError ENOENT), w)
      | Some i \<Rightarrow> (case inodes w i of None \<Rightarrow> (Inl (OsError ENOENT), w)
          | Some nd \<Rightarrow>
              if \<not> i_readable nd then (Inl (OsError EACCES), w)
              else (Inr (next_fd w),
                    w\<lparr>fds := (fds w)(next_fd w \<mapsto> (i, 0)), next_fd := Suc (next_fd w)\<rparr>)))"

text \<open>
  \<open>File.Read(p)\<close>: the buffer \<open>p\<close> is passed in and its new contents are returned. A
  buffer of length 0 gives \<open>(0, nil)\<close>, the end of the file gives \<open>(0, io.EOF)\<close>, and an
  error comes with a count of 0, as in Go's \<open>os\<close> package.
\<close>

definition file_Read :: "nat \<Rightarrow> byte list \<Rightarrow> world \<Rightarrow> (int \<times> error option) \<times> byte list \<times> world" where
  "file_Read fd p w =
     (case fds w fd of None \<Rightarrow> ((0, Some (OsError EBADF)), p, w)
      | Some (ino, pos) \<Rightarrow> (case inodes w ino of None \<Rightarrow> ((0, Some (OsError EBADF)), p, w)
          | Some nd \<Rightarrow>
              if p = [] then ((0, None), p, w)
              else if i_dir nd then ((0, Some (OsError EISDIR)), p, w)
              else (let data = take (length p) (drop pos (i_data nd)) in
                if data = [] then ((0, Some EOF), p, w)
                else ((int (length data), None), data @ drop (length data) p,
                      w\<lparr>fds := (fds w)(fd \<mapsto> (ino, pos + length data))\<rparr>))))"

definition file_Close :: "nat \<Rightarrow> world \<Rightarrow> error option \<times> world" where
  "file_Close fd w =
     (case fds w fd of None \<Rightarrow> (Some (OsError EBADF), w)
      | Some x \<Rightarrow> (None, w\<lparr>fds := (fds w)(fd := None)\<rparr>))"

definition watcher_Close :: "world \<Rightarrow> error option \<times> world" where
  "watcher_Close w = (watcher_close_error w, w\<lparr>watcher_closed := True\<rparr>)"

section \<open>tailreader.go\<close>

text \<open>
  The struct \<open>TailingReader\<close>. The field \<open>file\<close> is written \<open>file'\<close>; it holds the
  descriptor of the open handle. \<open>watcher\<close> is the pointer to the one watcher of the
  world, or nil. \<open>offset\<close> is an \<open>int64\<close> in the source and an unbounded integer here:
  it only grows by the counts of bytes read from a file, whose length the operating
  system keeps within \<open>int64\<close>.
\<close>

record TailingReader =
  file' :: "nat option"
  filePath :: string
  options :: Options
  watcher :: "unit option"
  offset :: int

text \<open>
  What a call does: it never returns because the reader waits forever (\<open>Blocks\<close>), it
  panics on the nil watcher of a closed reader (\<open>Panics\<close>), or it returns.
\<close>

datatype 'a outcome = Blocks | Panics | Returns 'a

text \<open>One pass of a loop either returns from the function or goes round again.\<close>

datatype ('r, 's) step = Done 'r | Continue 's

text \<open>
  \<open>NewTailingReader\<close>; \<open>filepath.Dir\<close> of the standard library is the parameter \<open>Dir\<close>.
  Adding the watch fails when the directory does not exist.
\<close>

definition NewTailingReader ::
  "(path \<Rightarrow> path) \<Rightarrow> path \<Rightarrow> Option list \<Rightarrow> world \<Rightarrow> (error + TailingReader) \<times> world" where
  "NewTailingReader Dir fp opts w =
     (let tr = \<lparr>file' = None, filePath = fp,
                options = fold (\<lambda>option os. option os)
                            (if length opts = 0 then DefaultOptions else opts) zero_Options,
                watcher = None, offset = 0\<rparr>
      in case new_watcher_error w of Some e \<Rightarrow> (Inl e, w)
         | None \<Rightarrow> (case names w (Dir fp) of None \<Rightarrow> (Inl (OsError ENOENT), w)
             | Some i \<Rightarrow> (Inr (tr\<lparr>watcher := Some ()\<rparr>), w)))"

definition openFile :: "TailingReader \<Rightarrow> world \<Rightarrow> error option \<times> TailingReader \<times> world" where
  "openFile r w =
     (if file' r \<noteq> None then (None, r, w)
      else (case os_Open (filePath r) w of
              (Inl err, w') \<Rightarrow> (Some err, r, w')
            | (Inr fd, w') \<Rightarrow> (None, r\<lparr>file' := Some fd, offset := 0\<rparr>, w')))"

definition closeFile :: "TailingReader \<Rightarrow> world \<Rightarrow> error option \<times> TailingReader \<times> world" where
  "closeFile r w =
     (case file' r of None \<Rightarrow> (None, r, w)
      | Some fd \<Rightarrow> (let (err, w') = file_Close fd w
                    in (err, r\<lparr>file' := None, offset := 0\<rparr>, w')))"

definition Close :: "TailingReader \<Rightarrow> world \<Rightarrow> (error option \<times> TailingReader \<times> world) outcome" where
  "Close r w =
     (case watcher r of None \<Rightarrow> Panics
      | Some u \<Rightarrow> (let (err, w') = watcher_Close w; r' = r\<lparr>watcher := None\<rparr>
                   in if err \<noteq> None then Returns (err, r', w')
                      else Returns (closeFile r' w')))"

definition getFileSize :: "TailingReader \<Rightarrow> world \<Rightarrow> int \<times> error option" where
  "getFileSize r w =
     (case os_Stat_Size (filePath r) w of Inl err \<Rightarrow> (0, Some err) | Inr n \<Rightarrow> (n, None))"

text \<open>
  The \<open>select\<close> loop of \<open>waitForEventWithTimeout\<close>, over what the feed holds: a change
  made by another process takes effect and the wait goes on; an event is returned when
  its kinds lie within \<open>eventType\<close> and its name is the reader's path; an error of the
  watcher is returned; the timer fires only when one was started (\<open>timeout > 0\<close>):
  \<open>TimerFires\<close> in the feed says that it fires before what follows, and when the feed is
  used up a started timer fires, where a wait without a timer blocks forever.
\<close>

fun select_loop :: "string \<Rightarrow> Op \<Rightarrow> bool \<Rightarrow> env_item list \<Rightarrow> world \<Rightarrow> ((error option \<times> Op) \<times> world) outcome" where
  "select_loop fp eventType timer [] w =
     (if timer then Returns ((Some errTimeout, 0), w\<lparr>feed := []\<rparr>) else Blocks)"
| "select_loop fp eventType timer (FsChange a # rest) w =
     select_loop fp eventType timer rest (apply_fs a w)"
| "select_loop fp eventType timer (Deliver event # rest) w =
     (if eventType AND Op event = Op event \<and> Name event = fp
      then Returns ((None, Op event), w\<lparr>feed := rest\<rparr>)
      else select_loop fp eventType timer rest w)"
| "select_loop fp eventType timer (DeliverErr e # rest) w =
     Returns ((Some (WatcherError e), 0), w\<lparr>feed := rest\<rparr>)"
| "select_loop fp eventType timer (TimerFires # rest) w =
     (if timer then Returns ((Some errTimeout, 0), w\<lparr>feed := rest\<rparr>)
      else select_loop fp eventType timer rest w)"

definition waitForEventWithTimeout ::
  "TailingReader \<Rightarrow> Op \<Rightarrow> int \<Rightarrow> world \<Rightarrow> ((error option \<times> Op) \<times> world) outcome" where
  "waitForEventWithTimeout r eventType timeout w =
     (case watcher r of None \<Rightarrow> Panics
      | Some u \<Rightarrow> select_loop (filePath r) eventType (timeout > 0) (feed w) w)"

lemma feed_apply_fs: "feed (apply_fs a w) = feed w"
  by (cases a) (auto simp: new_inode_def update_inode_def split: option.splits)

lemma select_loop_feed:
  "select_loop fp m t xs w = Returns ((e, ev), w') \<Longrightarrow>
     length (feed w') \<le> length xs \<and> (e = None \<longrightarrow> length (feed w') < length xs)"
proof (induction fp m t xs w rule: select_loop.induct)
  case (1 fp eventType timer w)
  then show ?case by (auto split: if_splits)
next
  case (3 fp eventType timer event rest w)
  then show ?case by (auto split: if_splits)
next
  case (5 fp eventType timer rest w)
  then show ?case by (auto split: if_splits)
qed auto

lemma waitForEventWithTimeout_feed_le:
  "waitForEventWithTimeout r m t w = Returns ((e, ev), w') \<Longrightarrow>
     length (feed w') \<le> length (feed w)"
  by (auto simp: waitForEventWithTimeout_def split: option.splits dest: select_loop_feed)

lemma waitForEventWithTimeout_feed:
  "waitForEventWithTimeout r m t w = Returns ((None, ev), w') \<Longrightarrow>
     length (feed w') < length (feed w)"
  by (auto simp: waitForEventWithTimeout_def split: option.splits dest: select_loop_feed)

function waitForFile ::
  "bool \<Rightarrow> TailingReader \<Rightarrow> world \<Rightarrow> ((int \<times> error option) \<times> TailingReader \<times> world) outcome" where
  "waitForFile forceWait r w =
     (case getFileSize r w of
        (sz, None) \<Rightarrow> Returns ((sz, None), r, w)
      | (sz, Some err) \<Rightarrow>
          if \<not> WaitForFile (options r) \<and> \<not> forceWait then Returns ((0, Some err), r, w)
          else if file' r \<noteq> None \<and> CloseOnDelete (options r)
          then (let (e, r', w') = closeFile r w in Returns ((0, Some EOF), r', w'))
          else (case waitForEventWithTimeout r fsnotify_Create (WaitForFileTimeout (options r)) w of
                  Blocks \<Rightarrow> Blocks
                | Panics \<Rightarrow> Panics
                | Returns ((err, event), w') \<Rightarrow>
                    if err = Some errTimeout \<and> TreatTimeoutsAsEOF (options r)
                    then Returns ((0, Some EOF), r, w')
                    else (let err = (if err = Some errTimeout then Some ErrWaitTimeout else err)
                          in if err \<noteq> None then Returns ((0, err), r, w')
                             else waitForFile forceWait r w')))"
  by pat_completeness auto
termination
  by (relation "measure (\<lambda>(f, r, w). length (feed w))")
     (auto split: if_splits dest: waitForEventWithTimeout_feed)

declare waitForFile.simps [simp del]

definition WaitForFile_method :: "TailingReader \<Rightarrow> world \<Rightarrow> (error option \<times> TailingReader \<times> world) outcome" where
  "WaitForFile_method r w =
     (case waitForFile True r w of Blocks \<Rightarrow> Blocks | Panics \<Rightarrow> Panics
      | Returns ((sz, err), r', w') \<Rightarrow> Returns (err, r', w'))"


text \<open>
  \<open>Read\<close>, one pass of its loop in three parts. The state of a pass is the caller's
  buffer, the reader and the world.

  Lines 173 to 181: the truncation check.
\<close>

type_synonym read_state = "byte list \<times> TailingReader \<times> world"
type_synonym read_result = "(int \<times> error option) \<times> read_state"

definition read_truncate :: "int \<Rightarrow> read_state \<Rightarrow> (read_result, read_state) step" where
  "read_truncate sz s =
     (case s of (p, r, w) \<Rightarrow>
        if offset r > sz
        then (let (e, r', w') = closeFile r w
              in if CloseOnTruncate (options r') then Done ((0, Some EOF), p, r', w')
                 else Continue (p, r', w'))
        else Continue (p, r, w))"

text \<open>Lines 183 to 200: new data is read and returned.\<close>

definition read_data :: "int \<Rightarrow> read_state \<Rightarrow> (read_result, read_state) step" where
  "read_data sz s =
     (case s of (p, r, w) \<Rightarrow>
        if offset r < sz
        then (case openFile r w of
                (Some err, r1, w1) \<Rightarrow> Done ((0, Some err), p, r1, w1)
              | (None, r1, w1) \<Rightarrow>
                  (case file' r1 of
                     None \<Rightarrow> Done ((0, Some (OsError EINVAL)), p, r1, w1)
                   | Some fd \<Rightarrow>
                       (case file_Read fd p w1 of ((n, err), p', w2) \<Rightarrow>
                          if err \<noteq> None \<and> err \<noteq> Some EOF then Done ((0, err), p', r1, w2)
                          else if n > 0
                          then Done ((n, None), p', r1\<lparr>offset := offset r1 + n\<rparr>, w2)
                          else Continue (p', r1, w2))))
        else Continue (p, r, w))"

text \<open>Lines 203 to 221: the wait for changes to the file.\<close>

definition read_mask :: Op where
  "read_mask = fsnotify_Write OR fsnotify_Remove OR fsnotify_Rename OR fsnotify_Chmod"

definition read_wait :: "read_state \<Rightarrow> (read_result, read_state) step outcome" where
  "read_wait s =
     (case s of (p, r, w) \<Rightarrow>
        (case waitForEventWithTimeout r read_mask (IdleTimeout (options r)) w of
           Blocks \<Rightarrow> Blocks
         | Panics \<Rightarrow> Panics
         | Returns ((err, event), w') \<Rightarrow>
             if err = Some errTimeout \<and> TreatTimeoutsAsEOF (options r)
             then Returns (Done ((0, Some EOF), p, r, w'))
             else (let err = (if err = Some errTimeout then Some ErrIdleTimeout else err)
                   in if err \<noteq> None then Returns (Done ((0, err), p, r, w'))
                      else if Has event fsnotify_Remove \<or> Has event fsnotify_Rename
                      then (if CloseOnDelete (options r) then Returns (Done ((0, Some EOF), p, r, w'))
                            else (let (e, r', w'') = closeFile r w' in Returns (Continue (p, r', w''))))
                      else Returns (Continue (p, r, w')))))"

text \<open>The whole pass, lines 168 to 221.\<close>

definition read_pass :: "read_state \<Rightarrow> (read_result, read_state) step outcome" where
  "read_pass s =
     (case s of (p, r, w) \<Rightarrow>
        (case waitForFile False r w of
           Blocks \<Rightarrow> Blocks
         | Panics \<Rightarrow> Panics
         | Returns ((sz, err), r1, w1) \<Rightarrow>
             if err \<noteq> None then Returns (Done ((0, err), p, r1, w1))
             else (case read_truncate sz (p, r1, w1) of
                     Done res \<Rightarrow> Returns (Done res)
                   | Continue s2 \<Rightarrow>
                       (case read_data sz s2 of
                          Done res \<Rightarrow> Returns (Done res)
                        | Continue s3 \<Rightarrow> read_wait s3))))"

lemma feed_closeFile: "closeFile r w = (e, r', w') \<Longrightarrow> feed w' = feed w"
  by (auto simp: closeFile_def file_Close_def split: option.splits)

lemma feed_openFile: "openFile r w = (e, r', w') \<Longrightarrow> feed w' = feed w"
  by (auto simp: openFile_def os_Open_def split: option.splits if_splits)

lemma feed_file_Read: "file_Read fd p w = (x, p', w') \<Longrightarrow> feed w' = feed w"
  by (auto simp: file_Read_def Let_def split: option.splits if_splits)


text \<open>
  Induction over the passes of \<open>waitForFile\<close>: each further pass starts after an event
  was taken from the feed.
\<close>

lemma waitForFile_pass_induct:
  assumes step: "\<And>w. (\<And>w' ev. waitForEventWithTimeout r fsnotify_Create
                   (WaitForFileTimeout (options r)) w = Returns ((None, ev), w') \<Longrightarrow> P w') \<Longrightarrow> P w"
  shows "P w"
proof (induction "length (feed w)" arbitrary: w rule: less_induct)
  case less
  show ?case
    by (rule step) (auto intro: less dest: waitForEventWithTimeout_feed)
qed

lemma select_loop_frame:
  "select_loop fp m t xs w = Returns (x, w') \<Longrightarrow>
     fds w' = fds w \<and> next_fd w' = next_fd w"
proof (induction fp m t xs w rule: select_loop.induct)
  case (1 fp eventType timer w)
  then show ?case by (auto split: if_splits)
next
  case (2 fp eventType timer a rest w)
  have "fds (apply_fs a w) = fds w \<and> next_fd (apply_fs a w) = next_fd w"
    by (cases a) (auto simp: new_inode_def update_inode_def split: option.splits)
  with 2 show ?case by simp
next
  case (3 fp eventType timer event rest w)
  then show ?case by (auto split: if_splits)
next
  case (5 fp eventType timer rest w)
  then show ?case by (auto split: if_splits)
qed auto

lemma waitForEventWithTimeout_frame:
  "waitForEventWithTimeout r m t w = Returns (x, w') \<Longrightarrow>
     fds w' = fds w \<and> next_fd w' = next_fd w"
  by (auto simp: waitForEventWithTimeout_def split: option.splits dest: select_loop_frame)

lemma closeFile_Some:
  assumes "file' r = Some fd" and "closeFile r w = (e, r', w')"
  shows "r' = r\<lparr>file' := None, offset := 0\<rparr>" and "fds w' = (fds w)(fd := None)"
    and "feed w' = feed w" and "next_fd w' = next_fd w"
    and "names w' = names w" and "inodes w' = inodes w"
  using assms by (auto simp: closeFile_def file_Close_def split: option.splits)

text \<open>The four ways through one pass of \<open>waitForFile\<close>.\<close>

lemma waitForFile_found:
  "getFileSize r w = (sz, None) \<Longrightarrow> waitForFile f r w = Returns ((sz, None), r, w)"
  by (subst waitForFile.simps) simp

lemma waitForFile_absent_nowait:
  "getFileSize r w = (sz, Some err) \<Longrightarrow> \<not> WaitForFile (options r) \<Longrightarrow> \<not> f \<Longrightarrow>
     waitForFile f r w = Returns ((0, Some err), r, w)"
  by (subst waitForFile.simps) simp

lemma waitForFile_absent_close:
  "getFileSize r w = (sz, Some err) \<Longrightarrow> WaitForFile (options r) \<or> f \<Longrightarrow>
   file' r \<noteq> None \<Longrightarrow> CloseOnDelete (options r) \<Longrightarrow>
     waitForFile f r w = (case closeFile r w of (e, r', w') \<Rightarrow> Returns ((0, Some EOF), r', w'))"
  by (subst waitForFile.simps) auto

lemma waitForFile_absent_wait:
  "getFileSize r w = (sz, Some err) \<Longrightarrow> WaitForFile (options r) \<or> f \<Longrightarrow>
   file' r = None \<or> \<not> CloseOnDelete (options r) \<Longrightarrow>
     waitForFile f r w =
       (case waitForEventWithTimeout r fsnotify_Create (WaitForFileTimeout (options r)) w of
          Blocks \<Rightarrow> Blocks
        | Panics \<Rightarrow> Panics
        | Returns ((err, event), w') \<Rightarrow>
            if err = Some errTimeout
            then (if TreatTimeoutsAsEOF (options r) then Returns ((0, Some EOF), r, w')
                  else Returns ((0, Some ErrWaitTimeout), r, w'))
            else if err \<noteq> None then Returns ((0, err), r, w')
            else waitForFile f r w')"
  by (subst waitForFile.simps) (auto simp: Let_def split: outcome.splits)

text \<open>
  What a return of \<open>waitForFile\<close> can be: the reader is as it was and the open handles
  are untouched, or the handle was closed because the file is gone and \<open>CloseOnDelete\<close>
  is set.
\<close>

lemma waitForFile_Returns:
  "waitForFile f r w = Returns ((n, e), r', w') \<Longrightarrow>
     length (feed w') \<le> length (feed w) \<and> next_fd w' = next_fd w \<and>
     ((r' = r \<and> fds w' = fds w \<and> (e = None \<longrightarrow> getFileSize r w' = (n, None)) \<and>
         (e \<noteq> None \<longrightarrow> n = 0)) \<or>
      (e = Some EOF \<and> n = 0 \<and> CloseOnDelete (options r) \<and>
         (\<exists>fd. file' r = Some fd \<and> r' = r\<lparr>file' := None, offset := 0\<rparr> \<and>
               fds w' = (fds w)(fd := None))))"
proof (induction w rule: waitForFile_pass_induct [of r])
  case (1 w)
  note u = "1.prems"
  obtain sz eo where gs: "getFileSize r w = (sz, eo)" by (cases "getFileSize r w")
  show ?case
  proof (cases eo)
    case None
    with gs u show ?thesis by (auto simp: waitForFile_found)
  next
    case (Some err)
    note gs = gs [unfolded Some]
    show ?thesis
    proof (cases "\<not> WaitForFile (options r) \<and> \<not> f")
      case True
      with gs u show ?thesis by (auto simp: waitForFile_absent_nowait)
    next
      case False
      then have nw: "WaitForFile (options r) \<or> f" by auto
      show ?thesis
      proof (cases "file' r \<noteq> None \<and> CloseOnDelete (options r)")
        case True
        then obtain fd where fd: "file' r = Some fd" by auto
        obtain e1 r1 w1 where cf: "closeFile r w = (e1, r1, w1)"
          by (cases "closeFile r w") auto
        from gs nw True cf u have "n = 0" "e = Some EOF" "r' = r1" "w' = w1"
          by (auto simp: waitForFile_absent_close)
        with closeFile_Some [OF fd cf] fd True show ?thesis by simp
      next
        case False
        then have nc: "file' r = None \<or> \<not> CloseOnDelete (options r)" by auto
        note u = u [unfolded waitForFile_absent_wait [OF gs nw nc]]
        show ?thesis
        proof (cases "waitForEventWithTimeout r fsnotify_Create (WaitForFileTimeout (options r)) w")
          case Blocks
          with u show ?thesis by simp
        next
          case Panics
          with u show ?thesis by simp
        next
          case (Returns y)
          obtain err2 ev w2 where y: "y = ((err2, ev), w2)" by (cases y) auto
          from Returns y have lt: "length (feed w2) \<le> length (feed w)"
            and fr: "fds w2 = fds w" "next_fd w2 = next_fd w"
            by (auto dest: waitForEventWithTimeout_feed_le waitForEventWithTimeout_frame)
          show ?thesis
          proof (cases "err2 = None")
            case True
            with Returns y u
            have "waitForFile f r w2 = Returns ((n, e), r', w')" by simp
            from "1.IH" [OF _ this] Returns y True lt fr
            show ?thesis by auto
          next
            case False
            with Returns y u lt fr show ?thesis
              by (auto split: if_splits)
          qed
        qed
      qed
    qed
  qed
qed

lemma read_truncate_feed:
  "read_truncate sz (p, r, w) = Continue (p', r', w') \<Longrightarrow> feed w' = feed w"
  by (auto simp: read_truncate_def split: if_splits prod.splits dest: feed_closeFile)

lemma read_data_feed:
  "read_data sz (p, r, w) = Continue (p', r', w') \<Longrightarrow> feed w' = feed w"
  by (auto simp: read_data_def split: if_splits prod.splits option.splits
           dest!: feed_openFile feed_file_Read)

lemma read_wait_feed:
  "read_wait (p, r, w) = Returns (Continue (p', r', w')) \<Longrightarrow> length (feed w') < length (feed w)"
  by (auto simp: read_wait_def Let_def split: outcome.splits if_splits prod.splits
           dest!: waitForEventWithTimeout_feed feed_closeFile)

lemma read_pass_feed:
  assumes "read_pass (p, r, w) = Returns (Continue (p', r', w'))"
  shows "length (feed w') < length (feed w)"
proof -
  from assms obtain sz r1 w1 p2 r2 w2 p3 r3 w3 where
    a: "waitForFile False r w = Returns ((sz, None), r1, w1)"
    and b: "read_truncate sz (p, r1, w1) = Continue (p2, r2, w2)"
    and c: "read_data sz (p2, r2, w2) = Continue (p3, r3, w3)"
    and d: "read_wait (p3, r3, w3) = Returns (Continue (p', r', w'))"
    by (auto simp: read_pass_def split: outcome.splits if_splits step.splits)
  from waitForFile_Returns [OF a] read_truncate_feed [OF b] read_data_feed [OF c]
    read_wait_feed [OF d]
  show ?thesis by simp
qed

text \<open>\<open>Read\<close>: the passes repeated until one returns.\<close>

function Read :: "TailingReader \<Rightarrow> byte list \<Rightarrow> world \<Rightarrow> read_result outcome" where
  "Read r p w =
     (case read_pass (p, r, w) of
        Blocks \<Rightarrow> Blocks
      | Panics \<Rightarrow> Panics
      | Returns (Done res) \<Rightarrow> Returns res
      | Returns (Continue (p', r', w')) \<Rightarrow> Read r' p' w')"
  by pat_completeness auto
termination
  by (relation "measure (\<lambda>(r, p, w). length (feed w))") (auto dest: read_pass_feed)

declare Read.simps [simp del]

section \<open>Invariants of the reader\<close>

text \<open>
  The offset is never negative and is 0 while no handle is open; the position of the open
  handle in the operating system is the reader's offset.
\<close>

definition reader_inv :: "TailingReader \<Rightarrow> bool" where
  "reader_inv r = (0 \<le> offset r \<and> (file' r = None \<longrightarrow> offset r = 0))"

definition handle_inv :: "TailingReader \<Rightarrow> world \<Rightarrow> bool" where
  "handle_inv r w =
     (case file' r of None \<Rightarrow> True
      | Some fd \<Rightarrow> (case fds w fd of None \<Rightarrow> False | Some (ino, pos) \<Rightarrow> int pos = offset r))"

definition handle_content :: "world \<Rightarrow> nat \<Rightarrow> byte list" where
  "handle_content w fd =
     (case fds w fd of None \<Rightarrow> []
      | Some (ino, pos) \<Rightarrow> (case inodes w ino of None \<Rightarrow> [] | Some nd \<Rightarrow> i_data nd))"

lemma openFile_inv:
  assumes "reader_inv r" "handle_inv r w" "openFile r w = (e, r', w')"
  shows "reader_inv r' \<and> handle_inv r' w' \<and> offset r' = offset r \<and>
         (e = None \<longrightarrow> file' r' \<noteq> None) \<and> (e \<noteq> None \<longrightarrow> r' = r)"
  using assms
  by (auto simp: reader_inv_def handle_inv_def openFile_def os_Open_def
           split: option.splits if_splits)

lemma file_Read_shape:
  assumes "file_Read fd p w = ((n, e), p', w')"
  shows "(e \<noteq> None \<and> n = 0 \<and> p' = p \<and> w' = w) \<or> (e = None \<and> n = 0 \<and> p' = p \<and> w' = w \<and> p = []) \<or>
     (e = None \<and> 0 < n \<and> (\<exists>ino pos. fds w fd = Some (ino, pos) \<and>
         w' = w\<lparr>fds := (fds w)(fd \<mapsto> (ino, pos + nat n))\<rparr> \<and>
         take (nat n) p' = take (nat n) (drop pos (handle_content w fd)) \<and>
         pos + nat n \<le> length (handle_content w fd) \<and>
         nat n \<le> length p \<and> drop (nat n) p' = drop (nat n) p \<and> length p' = length p))"
proof -
  have [simp]: "\<And>a b. nat (int a - int b) = a - b" by arith
  show ?thesis
    using assms
    by (auto simp: file_Read_def handle_content_def Let_def min_def
           split: option.splits if_splits prod.splits)
qed


definition delivered :: "int \<Rightarrow> int \<Rightarrow> byte list \<Rightarrow> byte list \<Rightarrow> TailingReader \<Rightarrow> world \<Rightarrow> bool" where
  "delivered old n p p' r' w' =
     (case file' r' of None \<Rightarrow> False
      | Some fd \<Rightarrow>
          0 \<le> old \<and> offset r' = old + n \<and>
          nat old + nat n \<le> length (handle_content w' fd) \<and>
          take (nat n) p' = take (nat n) (drop (nat old) (handle_content w' fd)) \<and>
          nat n \<le> length p \<and> length p' = length p \<and> drop (nat n) p' = drop (nat n) p)"

lemma handle_inv_fds: "fds w' = fds w \<Longrightarrow> handle_inv r w' = handle_inv r w"
  by (simp add: handle_inv_def split: option.splits)

lemma closeFile_result:
  assumes "closeFile r w = (e, r', w')"
  shows "file' r' = None" and "reader_inv r \<Longrightarrow> offset r' = 0" and "reader_inv r \<Longrightarrow> reader_inv r'"
    and "handle_inv r' w'" and "options r' = options r" and "filePath r' = filePath r"
    and "watcher r' = watcher r"
  using assms
  by (auto simp: closeFile_def reader_inv_def handle_inv_def split: option.splits prod.splits)

lemma read_truncate_cases:
  assumes "reader_inv r" "handle_inv r w"
  shows "read_truncate sz (p, r, w) = Continue (p', r', w') \<Longrightarrow>
           reader_inv r' \<and> handle_inv r' w' \<and> p' = p \<and> (offset r' = offset r \<or> offset r' = 0)"
    and "read_truncate sz (p, r, w) = Done ((n, err), p', r', w') \<Longrightarrow>
           reader_inv r' \<and> handle_inv r' w' \<and> p' = p \<and> n = 0 \<and> err = Some EOF"
proof -
  obtain e2 r2 w2 where cf: "closeFile r w = (e2, r2, w2)" by (cases "closeFile r w") auto
  note cr = closeFile_result [OF cf]
  {
    assume "read_truncate sz (p, r, w) = Continue (p', r', w')"
    then have "(p', r', w') = (p, r, w) \<or> (p', r', w') = (p, r2, w2)"
      by (simp add: read_truncate_def cf split: if_splits)
    with assms cr
    show "reader_inv r' \<and> handle_inv r' w' \<and> p' = p \<and> (offset r' = offset r \<or> offset r' = 0)"
      by auto
  }
  {
    assume "read_truncate sz (p, r, w) = Done ((n, err), p', r', w')"
    then have "(p', r', w') = (p, r2, w2)" "n = 0" "err = Some EOF"
      by (simp_all add: read_truncate_def cf split: if_splits)
    with assms cr
    show "reader_inv r' \<and> handle_inv r' w' \<and> p' = p \<and> n = 0 \<and> err = Some EOF"
      by auto
  }
qed

lemma read_data_Continue:
  assumes "reader_inv r" "handle_inv r w" "read_data sz (p, r, w) = Continue (p', r', w')"
  shows "reader_inv r' \<and> handle_inv r' w' \<and> p' = p \<and> offset r' = offset r"
proof (cases "offset r < sz")
  case False
  with assms show ?thesis by (simp add: read_data_def)
next
  case True
  obtain e r1 w1 where o: "openFile r w = (e, r1, w1)" by (cases "openFile r w") auto
  note oi = openFile_inv [OF assms(1,2) o]
  from assms(3) True o obtain fd n err where
    e: "e = None" and fd: "file' r1 = Some fd"
    and fr: "file_Read fd p w1 = ((n, err), p', w')" and r': "r' = r1" and n: "\<not> 0 < n"
    by (auto simp: read_data_def split: option.splits prod.splits if_splits)
  from file_Read_shape [OF fr] n have "p' = p" "w' = w1" by auto
  with oi r' show ?thesis by simp
qed

lemma read_data_Done:
  assumes "reader_inv r" "handle_inv r w" "read_data sz (p, r, w) = Done ((n, err), p', r', w')"
  shows "reader_inv r' \<and> handle_inv r' w' \<and>
         ((err \<noteq> None \<and> n = 0 \<and> p' = p) \<or> (err = None \<and> 0 < n \<and> delivered (offset r) n p p' r' w'))"
proof -
  from assms(3) have lt: "offset r < sz" by (auto simp: read_data_def split: if_splits)
  obtain e r1 w1 where o: "openFile r w = (e, r1, w1)" by (cases "openFile r w") auto
  note oi = openFile_inv [OF assms(1,2) o]
  show ?thesis
  proof (cases e)
    case (Some x)
    with assms(3) lt o oi show ?thesis by (auto simp: read_data_def)
  next
    case None
    with oi obtain fd where fd: "file' r1 = Some fd" by auto
    obtain n1 e1 p1 w2 where fr: "file_Read fd p w1 = ((n1, e1), p1, w2)"
      by (cases "file_Read fd p w1") auto
    from oi fd obtain ino pos where fds: "fds w1 fd = Some (ino, pos)" and pos: "int pos = offset r1"
      by (auto simp: handle_inv_def split: option.splits)
    from file_Read_shape [OF fr]
    consider (err) "e1 \<noteq> None" "n1 = 0" "p1 = p" "w2 = w1"
      | (zero) "e1 = None" "n1 = 0" "p1 = p" "w2 = w1"
      | (data) "e1 = None" "0 < n1" 
          "w2 = w1\<lparr>fds := (fds w1)(fd \<mapsto> (ino, pos + nat n1))\<rparr>"
          "take (nat n1) p1 = take (nat n1) (drop pos (handle_content w1 fd))"
          "pos + nat n1 \<le> length (handle_content w1 fd)"
          "nat n1 \<le> length p" "drop (nat n1) p1 = drop (nat n1) p" "length p1 = length p"
      using fds by auto
    then show ?thesis
    proof cases
      case err
      with assms(3) lt o None fd fr oi show ?thesis
        by (auto simp: read_data_def split: if_splits)
    next
      case zero
      with assms(3) lt o None fd fr oi show ?thesis
        by (auto simp: read_data_def split: if_splits)
    next
      case data
      with assms(3) lt o None fd fr have
        res: "n = n1" "err = None" "p' = p1" "r' = r1\<lparr>offset := offset r1 + n1\<rparr>" "w' = w2"
        by (auto simp: read_data_def split: if_splits)
      have hc: "handle_content w2 fd = handle_content w1 fd"
        using data(3) fds by (simp add: handle_content_def)
      have po: "nat (offset r) = pos" using pos oi by simp
      have f': "file' r' = Some fd" using res fd by simp
      have ri: "reader_inv r'" using oi res data(2) f' by (simp add: reader_inv_def)
      have hi: "handle_inv r' w'"
        using res f' data(3) pos data(2) by (simp add: handle_inv_def)
      have "0 \<le> offset r" using assms(1) by (simp add: reader_inv_def)
      moreover have "offset r' = offset r + n" using res oi by simp
      ultimately have "delivered (offset r) n p p' r' w'"
        using f' res data po hc by (simp add: delivered_def)
      with ri hi res data(2) show ?thesis by simp
    qed
  qed
qed

lemma read_wait_Returns:
  "waitForEventWithTimeout r read_mask (IdleTimeout (options r)) w = Returns ((err, ev), w1) \<Longrightarrow>
     read_wait (p, r, w) =
       (if err = Some errTimeout
        then Returns (Done ((0, Some (if TreatTimeoutsAsEOF (options r) then EOF else ErrIdleTimeout)),
                            p, r, w1))
        else if err \<noteq> None then Returns (Done ((0, err), p, r, w1))
        else if Has ev fsnotify_Remove \<or> Has ev fsnotify_Rename
        then (if CloseOnDelete (options r) then Returns (Done ((0, Some EOF), p, r, w1))
              else (case closeFile r w1 of (e, r', w2) \<Rightarrow> Returns (Continue (p, r', w2))))
        else Returns (Continue (p, r, w1)))"
  by (simp add: read_wait_def Let_def)

lemma read_wait_not_Returns:
  "waitForEventWithTimeout r read_mask (IdleTimeout (options r)) w = Blocks \<Longrightarrow>
     read_wait (p, r, w) = Blocks"
  "waitForEventWithTimeout r read_mask (IdleTimeout (options r)) w = Panics \<Longrightarrow>
     read_wait (p, r, w) = Panics"
  by (simp_all add: read_wait_def)

lemma read_wait_Continue:
  assumes "reader_inv r" "handle_inv r w"
    and a: "read_wait (p, r, w) = Returns (Continue (p', r', w'))"
  shows "reader_inv r' \<and> handle_inv r' w' \<and> p' = p \<and> (offset r' = offset r \<or> offset r' = 0)"
proof (cases "waitForEventWithTimeout r read_mask (IdleTimeout (options r)) w")
  case Blocks
  with a show ?thesis by (simp add: read_wait_not_Returns)
next
  case Panics
  with a show ?thesis by (simp add: read_wait_not_Returns)
next
  case (Returns y)
  obtain e1 ev w1 where y: "y = ((e1, ev), w1)" by (cases y) auto
  note wt = Returns [unfolded y]
  from waitForEventWithTimeout_frame [OF wt] assms(2) have h1: "handle_inv r w1"
    using handle_inv_fds [of w1 w r] by simp
  obtain e2 r2 w2 where cf: "closeFile r w1 = (e2, r2, w2)" by (cases "closeFile r w1") auto
  note cr = closeFile_result [OF cf]
  note a [unfolded read_wait_Returns [OF wt] cf]
  then have "(p', r', w') = (p, r, w1) \<or> (p', r', w') = (p, r2, w2)"
    by (simp split: if_splits)
  then show ?thesis
  proof
    assume "(p', r', w') = (p, r, w1)"
    with assms(1) h1 show ?thesis by simp
  next
    assume "(p', r', w') = (p, r2, w2)"
    with cr(2,3) [OF assms(1)] cr(4) show ?thesis by simp
  qed
qed

lemma read_wait_Done:
  assumes a: "read_wait (p, r, w) = Returns (Done ((n, err), p', r', w'))"
  shows "r' = r \<and> fds w' = fds w \<and> p' = p \<and> n = 0 \<and> err \<noteq> None"
proof (cases "waitForEventWithTimeout r read_mask (IdleTimeout (options r)) w")
  case Blocks
  with a show ?thesis by (simp add: read_wait_not_Returns)
next
  case Panics
  with a show ?thesis by (simp add: read_wait_not_Returns)
next
  case (Returns y)
  obtain e1 ev w1 where y: "y = ((e1, ev), w1)" by (cases y) auto
  note wt = Returns [unfolded y]
  obtain e2 r2 w2 where cf: "closeFile r w1 = (e2, r2, w2)" by (cases "closeFile r w1") auto
  note a [unfolded read_wait_Returns [OF wt] cf]
  then have "r' = r \<and> w' = w1 \<and> p' = p \<and> n = 0 \<and> err \<noteq> None"
    by (auto split: if_splits)
  with waitForEventWithTimeout_frame [OF wt] show ?thesis by simp
qed

lemma waitForFile_inv:
  assumes "reader_inv r" "handle_inv r w" "waitForFile f r w = Returns ((n, e), r', w')"
  shows "reader_inv r' \<and> handle_inv r' w' \<and> (offset r' = offset r \<or> offset r' = 0)"
proof -
  from waitForFile_Returns [OF assms(3)]
  consider (same) "r' = r" "fds w' = fds w"
    | (closed) fd where "file' r = Some fd" "r' = r\<lparr>file' := None, offset := 0\<rparr>"
    by auto
  then show ?thesis
  proof cases
    case same
    with assms(1,2) handle_inv_fds [of w' w r] show ?thesis by simp
  next
    case closed
    then show ?thesis by (simp add: reader_inv_def handle_inv_def)
  qed
qed

lemma read_pass_Done_cases:
  assumes "read_pass (p, r, w) = Returns (Done res)"
  obtains (wait_err) sz e r1 w1 where
      "waitForFile False r w = Returns ((sz, Some e), r1, w1)" "res = ((0, Some e), p, r1, w1)"
    | (trunc) sz r1 w1 where
      "waitForFile False r w = Returns ((sz, None), r1, w1)"
      "read_truncate sz (p, r1, w1) = Done res"
    | (data) sz r1 w1 s2 where
      "waitForFile False r w = Returns ((sz, None), r1, w1)"
      "read_truncate sz (p, r1, w1) = Continue s2" "read_data sz s2 = Done res"
    | (wait) sz r1 w1 s2 s3 where
      "waitForFile False r w = Returns ((sz, None), r1, w1)"
      "read_truncate sz (p, r1, w1) = Continue s2" "read_data sz s2 = Continue s3"
      "read_wait s3 = Returns (Done res)"
  using assms
  by (auto simp: read_pass_def split: outcome.splits if_splits step.splits)

lemma read_pass_Continue_cases:
  assumes "read_pass (p, r, w) = Returns (Continue s)"
  obtains sz r1 w1 s2 s3 where
      "waitForFile False r w = Returns ((sz, None), r1, w1)"
      "read_truncate sz (p, r1, w1) = Continue s2" "read_data sz s2 = Continue s3"
      "read_wait s3 = Returns (Continue s)"
  using assms
  by (auto simp: read_pass_def split: outcome.splits if_splits step.splits)

lemma read_pass_Continue:
  assumes "reader_inv r" "handle_inv r w"
    and a: "read_pass (p, r, w) = Returns (Continue (p', r', w'))"
  shows "reader_inv r' \<and> handle_inv r' w' \<and> p' = p \<and> (offset r' = offset r \<or> offset r' = 0)"
proof -
  from a obtain sz r1 w1 s2 s3 where
    wf: "waitForFile False r w = Returns ((sz, None), r1, w1)"
    and tr: "read_truncate sz (p, r1, w1) = Continue s2"
    and rd: "read_data sz s2 = Continue s3"
    and wt: "read_wait s3 = Returns (Continue (p', r', w'))"
    by (rule read_pass_Continue_cases)
  obtain p2 r2 w2 where s2: "s2 = (p2, r2, w2)" by (cases s2) auto
  obtain p3 r3 w3 where s3: "s3 = (p3, r3, w3)" by (cases s3) auto
  note i1 = waitForFile_inv [OF assms(1,2) wf]
  from i1 have i1a: "reader_inv r1" and i1b: "handle_inv r1 w1" by auto
  note i2 = read_truncate_cases(1) [OF i1a i1b tr [unfolded s2]]
  from i2 have i2a: "reader_inv r2" and i2b: "handle_inv r2 w2" by auto
  note i3 = read_data_Continue [OF i2a i2b rd [unfolded s2 s3]]
  from i3 have i3a: "reader_inv r3" and i3b: "handle_inv r3 w3" by auto
  note i4 = read_wait_Continue [OF i3a i3b wt [unfolded s3]]
  from i1 i2 i3 i4 show ?thesis by auto
qed

lemma read_truncate_Done_shape:
  "read_truncate sz (p, r, w) = Done ((n, err), st) \<Longrightarrow> n = 0 \<and> err = Some EOF"
  by (auto simp: read_truncate_def split: if_splits prod.splits)

lemma read_data_Done_shape:
  assumes "read_data sz (p, r, w) = Done ((n, err), st)"
  shows "(err = None \<and> 0 < n) \<or> (err \<noteq> None \<and> n = 0)"
proof -
  obtain e r1 w1 where o: "openFile r w = (e, r1, w1)" by (cases "openFile r w") auto
  show ?thesis
  proof (cases "file' r1")
    case None
    with assms o show ?thesis
      by (auto simp: read_data_def split: if_splits option.splits)
  next
    case (Some fd)
    obtain n1 e1 p1 w2 where fr: "file_Read fd p w1 = ((n1, e1), p1, w2)"
      by (cases "file_Read fd p w1") auto
    with assms o Some show ?thesis
      by (auto simp: read_data_def split: if_splits option.splits)
  qed
qed

lemma read_pass_Done_shape:
  assumes "read_pass (p, r, w) = Returns (Done ((n, err), st))"
  shows "(err = None \<and> 0 < n) \<or> (err \<noteq> None \<and> n = 0)"
  using assms
proof (cases rule: read_pass_Done_cases)
  case (wait_err sz e r1 w1)
  then show ?thesis by simp
next
  case (trunc sz r1 w1)
  then show ?thesis by (auto dest: read_truncate_Done_shape)
next
  case (data sz r1 w1 s2)
  obtain p2 r2 w2 where s2: "s2 = (p2, r2, w2)" by (cases s2) auto
  from read_data_Done_shape [OF data(3) [unfolded s2]] show ?thesis .
next
  case (wait sz r1 w1 s2 s3)
  obtain p3 r3 w3 where s3: "s3 = (p3, r3, w3)" by (cases s3) auto
  obtain p4 r4 w4 where st: "st = (p4, r4, w4)" by (cases st) auto
  from read_wait_Done [OF wait(4) [unfolded s3 st]] show ?thesis by simp
qed

lemma read_pass_Done:
  assumes "reader_inv r" "handle_inv r w"
    and a: "read_pass (p, r, w) = Returns (Done ((n, err), p', r', w'))"
  shows "reader_inv r' \<and> handle_inv r' w' \<and>
         ((err \<noteq> None \<and> n = 0 \<and> p' = p) \<or>
          (err = None \<and> 0 < n \<and> (delivered (offset r) n p p' r' w' \<or> delivered 0 n p p' r' w')))"
  using a
proof (cases rule: read_pass_Done_cases)
  case (wait_err sz e r1 w1)
  with waitForFile_inv [OF assms(1,2) wait_err(1)] show ?thesis by simp
next
  case (trunc sz r1 w1)
  note i1 = waitForFile_inv [OF assms(1,2) trunc(1)]
  from i1 have i1a: "reader_inv r1" and i1b: "handle_inv r1 w1" by auto
  from read_truncate_cases(2) [OF i1a i1b trunc(2)] show ?thesis by simp
next
  case (data sz r1 w1 s2)
  obtain p2 r2 w2 where s2: "s2 = (p2, r2, w2)" by (cases s2) auto
  note i1 = waitForFile_inv [OF assms(1,2) data(1)]
  from i1 have i1a: "reader_inv r1" and i1b: "handle_inv r1 w1" by auto
  note i2 = read_truncate_cases(1) [OF i1a i1b data(2) [unfolded s2]]
  from i2 have i2a: "reader_inv r2" and i2b: "handle_inv r2 w2" by auto
  note i3 = read_data_Done [OF i2a i2b data(3) [unfolded s2]]
  from i1 i2 have "offset r2 = offset r \<or> offset r2 = 0" by auto
  with i3 i2 show ?thesis by auto
next
  case (wait sz r1 w1 s2 s3)
  obtain p2 r2 w2 where s2: "s2 = (p2, r2, w2)" by (cases s2) auto
  obtain p3 r3 w3 where s3: "s3 = (p3, r3, w3)" by (cases s3) auto
  note i1 = waitForFile_inv [OF assms(1,2) wait(1)]
  from i1 have i1a: "reader_inv r1" and i1b: "handle_inv r1 w1" by auto
  note i2 = read_truncate_cases(1) [OF i1a i1b wait(2) [unfolded s2]]
  from i2 have i2a: "reader_inv r2" and i2b: "handle_inv r2 w2" by auto
  note i3 = read_data_Continue [OF i2a i2b wait(3) [unfolded s2 s3]]
  from i3 have i3a: "reader_inv r3" and i3b: "handle_inv r3 w3" by auto
  note i4 = read_wait_Done [OF wait(4) [unfolded s3]]
  from i4 i3a i3b i3 i2 handle_inv_fds [of w' w3 r3] show ?thesis by auto
qed

lemma Read_pass_induct:
  assumes step: "\<And>r p w. (\<And>p' r' w'. read_pass (p, r, w) = Returns (Continue (p', r', w'))
                    \<Longrightarrow> P r' p' w') \<Longrightarrow> P r p w"
  shows "P r p w"
proof (induction "length (feed w)" arbitrary: r p w rule: less_induct)
  case less
  show ?case
    by (rule step) (auto intro: less dest: read_pass_feed)
qed

lemma Read_Done: "read_pass (p, r, w) = Returns (Done res) \<Longrightarrow> Read r p w = Returns res"
  by (subst Read.simps) simp

lemma Read_Continue:
  "read_pass (p, r, w) = Returns (Continue (p', r', w')) \<Longrightarrow> Read r p w = Read r' p' w'"
  by (subst Read.simps) simp

lemma Read_Blocks: "read_pass (p, r, w) = Blocks \<Longrightarrow> Read r p w = Blocks"
  by (subst Read.simps) simp

lemma Read_Panics: "read_pass (p, r, w) = Panics \<Longrightarrow> Read r p w = Panics"
  by (subst Read.simps) simp

lemma Read_last_pass:
  assumes "Read r p w = Returns res"
  obtains r0 p0 w0 where "read_pass (p0, r0, w0) = Returns (Done res)"
  using assms
proof (induction r p w rule: Read_pass_induct)
  case (1 r p w)
  show ?case
  proof (cases "read_pass (p, r, w)")
    case Blocks
    with "1.prems" show ?thesis by (simp add: Read_Blocks)
  next
    case Panics
    with "1.prems" show ?thesis by (simp add: Read_Panics)
  next
    case (Returns x)
    show ?thesis
    proof (cases x)
      case (Done res')
      with Returns "1.prems" show ?thesis by (auto simp: Read_Done)
    next
      case (Continue s)
      obtain p' r' w' where s: "s = (p', r', w')" by (cases s) auto
      note c = Returns [unfolded Continue s]
      from "1.prems"(2) have "Read r' p' w' = Returns res" by (simp add: Read_Continue [OF c])
      from "1.IH" [OF c _ this] "1.prems"(1) show ?thesis by blast
    qed
  qed
qed

lemma Read_Returns:
  assumes "reader_inv r" "handle_inv r w"
    and "Read r p w = Returns ((n, err), p', r', w')"
  shows "reader_inv r' \<and> handle_inv r' w' \<and>
         ((err \<noteq> None \<and> n = 0 \<and> p' = p) \<or>
          (err = None \<and> 0 < n \<and> (delivered (offset r) n p p' r' w' \<or> delivered 0 n p p' r' w')))"
  using assms
proof (induction r p w rule: Read_pass_induct)
  case (1 r p w)
  show ?case
  proof (cases "read_pass (p, r, w)")
    case Blocks
    with "1.prems" show ?thesis by (simp add: Read_Blocks)
  next
    case Panics
    with "1.prems" show ?thesis by (simp add: Read_Panics)
  next
    case (Returns x)
    show ?thesis
    proof (cases x)
      case (Done res')
      with Returns "1.prems"(3) have "read_pass (p, r, w) = Returns (Done ((n, err), p', r', w'))"
        by (simp add: Read_Done)
      from read_pass_Done [OF "1.prems"(1,2) this] show ?thesis .
    next
      case (Continue s)
      obtain p2 r2 w2 where s: "s = (p2, r2, w2)" by (cases s) auto
      note c = Returns [unfolded Continue s]
      note i = read_pass_Continue [OF "1.prems"(1,2) c]
      from "1.prems"(3) have "Read r2 p2 w2 = Returns ((n, err), p', r', w')"
        by (simp add: Read_Continue [OF c])
      from "1.IH" [OF c _ _ this] i show ?thesis by auto
    qed
  qed
qed

lemma getFileSize_nonneg: "getFileSize r w = (sz, None) \<Longrightarrow> 0 \<le> sz"
  by (auto simp: getFileSize_def os_Stat_Size_def split: option.splits sum.splits if_splits)

lemma getFileSize_closeFile:
  "closeFile r w = (e, r2, w2) \<Longrightarrow> getFileSize r2 w2 = getFileSize r w"
  by (auto simp: closeFile_def file_Close_def getFileSize_def os_Stat_Size_def
           split: option.splits)

lemma Read_same_pass:
  "read_pass (p, r, w) = read_pass (p2, r2, w2) \<Longrightarrow> Read r p w = Read r2 p2 w2"
  using Read.simps [of r p w] Read.simps [of r2 p2 w2] by simp

lemma read_pass_same_wait:
  "waitForFile False r w = waitForFile False r w2 \<Longrightarrow> read_pass (p, r, w) = read_pass (p, r, w2)"
  by (simp add: read_pass_def)

lemma Read_truncated_found:
  assumes "reader_inv r" and "getFileSize r w = (sz, None)" and "sz < offset r"
    and "closeFile r w = (e, r2, w2)"
  shows "file' r \<noteq> None \<and> file' r2 = None \<and> offset r2 = 0 \<and>
         (\<forall>fd. file' r = Some fd \<longrightarrow> fds w2 fd = None) \<and>
         (CloseOnTruncate (options r) \<longrightarrow> Read r p w = Returns ((0, Some EOF), p, r2, w2)) \<and>
         (\<not> CloseOnTruncate (options r) \<longrightarrow> Read r p w = Read r2 p w2) \<and>
         (\<not> CloseOnTruncate (options r) \<and> p \<noteq> [] \<and> names w (filePath r) = Some ino \<and>
          inodes w ino = Some nd \<and> \<not> i_dir nd \<and> i_readable nd \<and> i_data nd \<noteq> [] \<longrightarrow>
            Read r p w =
              Returns ((int (length (take (length p) (i_data nd))), None),
                       take (length p) (i_data nd) @ drop (length (take (length p) (i_data nd))) p,
                       r2\<lparr>file' := Some (next_fd w2),
                          offset := int (length (take (length p) (i_data nd)))\<rparr>,
                       w2\<lparr>fds := (fds w2)(next_fd w2 \<mapsto> (ino, length (take (length p) (i_data nd)))),
                          next_fd := Suc (next_fd w2)\<rparr>))"
proof -
  note nn = getFileSize_nonneg [OF assms(2)]
  from assms(1,3) nn obtain fd where fd: "file' r = Some fd"
    by (cases "file' r") (auto simp: reader_inv_def)
  note cs = closeFile_Some [OF fd assms(4)]
  note cr = closeFile_result [OF assms(4)]
  have r2: "file' r2 = None" "offset r2 = 0" using cs(1) by simp_all
  have closed: "\<forall>fd. file' r = Some fd \<longrightarrow> fds w2 fd = None" using fd cs(2) by simp
  have wf: "waitForFile False r w = Returns ((sz, None), r, w)"
    using assms(2) by (rule waitForFile_found)
  have gs2: "getFileSize r2 w2 = (sz, None)"
    using getFileSize_closeFile [OF assms(4)] assms(2) by simp
  have wf2: "waitForFile False r2 w2 = Returns ((sz, None), r2, w2)"
    using gs2 by (rule waitForFile_found)
  have tr2: "read_truncate sz (p, r2, w2) = Continue (p, r2, w2)"
    using r2 nn by (simp add: read_truncate_def)
  have A: "CloseOnTruncate (options r) \<longrightarrow> Read r p w = Returns ((0, Some EOF), p, r2, w2)"
  proof
    assume c: "CloseOnTruncate (options r)"
    have "read_truncate sz (p, r, w) = Done ((0, Some EOF), p, r2, w2)"
      using assms(3,4) c cr(5) by (simp add: read_truncate_def)
    then have "read_pass (p, r, w) = Returns (Done ((0, Some EOF), p, r2, w2))"
      by (simp add: read_pass_def wf)
    then show "Read r p w = Returns ((0, Some EOF), p, r2, w2)" by (rule Read_Done)
  qed
  have pass: "\<not> CloseOnTruncate (options r) \<Longrightarrow> read_pass (p, r, w) = read_pass (p, r2, w2)"
  proof -
    assume c: "\<not> CloseOnTruncate (options r)"
    have "read_truncate sz (p, r, w) = Continue (p, r2, w2)"
      using assms(3,4) c cr(5) by (simp add: read_truncate_def)
    then show ?thesis by (simp add: read_pass_def wf wf2 tr2)
  qed
  have B: "\<not> CloseOnTruncate (options r) \<longrightarrow> Read r p w = Read r2 p w2"
    using pass by (auto intro: Read_same_pass)
  have C: "\<not> CloseOnTruncate (options r) \<and> p \<noteq> [] \<and> names w (filePath r) = Some ino \<and>
          inodes w ino = Some nd \<and> \<not> i_dir nd \<and> i_readable nd \<and> i_data nd \<noteq> [] \<longrightarrow>
            Read r p w =
              Returns ((int (length (take (length p) (i_data nd))), None),
                       take (length p) (i_data nd) @ drop (length (take (length p) (i_data nd))) p,
                       r2\<lparr>file' := Some (next_fd w2),
                          offset := int (length (take (length p) (i_data nd)))\<rparr>,
                       w2\<lparr>fds := (fds w2)(next_fd w2 \<mapsto> (ino, length (take (length p) (i_data nd)))),
                          next_fd := Suc (next_fd w2)\<rparr>)"
  proof
    assume a: "\<not> CloseOnTruncate (options r) \<and> p \<noteq> [] \<and> names w (filePath r) = Some ino \<and>
          inodes w ino = Some nd \<and> \<not> i_dir nd \<and> i_readable nd \<and> i_data nd \<noteq> []"
    let ?data = "take (length p) (i_data nd)"
    let ?w3 = "w2\<lparr>fds := (fds w2)(next_fd w2 \<mapsto> (ino, 0)), next_fd := Suc (next_fd w2)\<rparr>"
    let ?r3 = "r2\<lparr>file' := Some (next_fd w2), offset := 0\<rparr>"
    from a assms(2) have sz: "sz = int (length (i_data nd))"
      by (simp add: getFileSize_def os_Stat_Size_def)
    from a have pos: "0 < sz" unfolding sz by simp
    from a have ne: "?data \<noteq> []" by simp
    have op: "openFile r2 w2 = (None, ?r3, ?w3)"
      using a r2 cs(5,6) cr(6) by (simp add: openFile_def os_Open_def)
    have fr: "file_Read (next_fd w2) p ?w3 =
                ((int (length ?data), None), ?data @ drop (length ?data) p,
                 ?w3\<lparr>fds := (fds ?w3)(next_fd w2 \<mapsto> (ino, 0 + length ?data))\<rparr>)"
      using a ne cs(6) by (simp add: file_Read_def Let_def)
    have "read_data sz (p, r2, w2) =
            Done ((int (length ?data), None), ?data @ drop (length ?data) p,
                  ?r3\<lparr>offset := offset ?r3 + int (length ?data)\<rparr>,
                  ?w3\<lparr>fds := (fds ?w3)(next_fd w2 \<mapsto> (ino, 0 + length ?data))\<rparr>)"
      using r2 pos ne unfolding read_data_def by (simp add: op fr del: file_Read_def)
    then have "read_pass (p, r2, w2) =
         Returns (Done ((int (length ?data), None), ?data @ drop (length ?data) p,
                  r2\<lparr>file' := Some (next_fd w2), offset := int (length ?data)\<rparr>,
                  w2\<lparr>fds := (fds w2)(next_fd w2 \<mapsto> (ino, length ?data)),
                     next_fd := Suc (next_fd w2)\<rparr>))"
      by (simp add: read_pass_def wf2 tr2)
    with pass a have "read_pass (p, r, w) =
         Returns (Done ((int (length ?data), None), ?data @ drop (length ?data) p,
                  r2\<lparr>file' := Some (next_fd w2), offset := int (length ?data)\<rparr>,
                  w2\<lparr>fds := (fds w2)(next_fd w2 \<mapsto> (ino, length ?data)),
                     next_fd := Suc (next_fd w2)\<rparr>))"
      by simp
    then show "Read r p w =
              Returns ((int (length ?data), None), ?data @ drop (length ?data) p,
                       r2\<lparr>file' := Some (next_fd w2), offset := int (length ?data)\<rparr>,
                       w2\<lparr>fds := (fds w2)(next_fd w2 \<mapsto> (ino, length ?data)),
                          next_fd := Suc (next_fd w2)\<rparr>)"
      by (rule Read_Done)
  qed
  from fd r2 closed A B C show ?thesis by blast
qed

section \<open>What the select loop passes over\<close>

text \<open>
  An item of the feed is \<open>skipped\<close> by a wait when it does not end it: a change to the
  file system, an event of another path or of a kind outside the mask, and the expiry of
  a timer that was not started. \<open>pass_over\<close> is the world after the skipped items.
\<close>

definition skipped :: "string \<Rightarrow> Op \<Rightarrow> bool \<Rightarrow> env_item \<Rightarrow> bool" where
  "skipped fp eventType timer item =
     (case item of
        FsChange a \<Rightarrow> True
      | Deliver event \<Rightarrow> \<not> (eventType AND Op event = Op event \<and> Name event = fp)
      | DeliverErr e \<Rightarrow> False
      | TimerFires \<Rightarrow> \<not> timer)"

fun pass_over :: "env_item list \<Rightarrow> world \<Rightarrow> world" where
  "pass_over [] w = w"
| "pass_over (FsChange a # items) w = pass_over items (apply_fs a w)"
| "pass_over (Deliver event # items) w = pass_over items w"
| "pass_over (DeliverErr e # items) w = pass_over items w"
| "pass_over (TimerFires # items) w = pass_over items w"

text \<open>
  The timer of a wait fires after the items \<open>pre\<close>: its expiry is next in the feed, or
  the feed ends there.
\<close>

definition timer_first :: "env_item list \<Rightarrow> env_item list \<Rightarrow> env_item list \<Rightarrow> bool" where
  "timer_first items pre rest = (items = pre @ TimerFires # rest \<or> (items = pre \<and> rest = []))"

definition returned_error ::
  "(error option \<times> TailingReader \<times> world) outcome \<Rightarrow> error option option" where
  "returned_error x = (case x of Returns (e, st) \<Rightarrow> Some e | Blocks \<Rightarrow> None | Panics \<Rightarrow> None)"

lemma select_loop_skip:
  "list_all (skipped fp m t) pre \<Longrightarrow>
     select_loop fp m t (pre @ rest) w = select_loop fp m t rest (pass_over pre w)"
proof (induction pre arbitrary: w)
  case Nil
  then show ?case by simp
next
  case (Cons x pre)
  then show ?case by (cases x) (auto simp: skipped_def)
qed

lemma wait_skip:
  assumes "watcher r \<noteq> None" and "feed w = pre @ rest"
    and "list_all (skipped (filePath r) m (0 < t)) pre"
  shows "waitForEventWithTimeout r m t w =
           select_loop (filePath r) m (0 < t) rest (pass_over pre w)"
  using assms by (auto simp: waitForEventWithTimeout_def select_loop_skip)

lemma wait_timer:
  assumes "watcher r \<noteq> None" and "timer_first (feed w) pre rest"
    and "list_all (skipped (filePath r) m True) pre" and "0 < t"
  shows "waitForEventWithTimeout r m t w =
           Returns ((Some errTimeout, 0), (pass_over pre w)\<lparr>feed := rest\<rparr>)"
proof (cases "feed w = pre @ TimerFires # rest")
  case True
  from wait_skip [OF assms(1) True, of m t] assms(3,4) show ?thesis by simp
next
  case False
  with assms(2) have e: "feed w = pre @ []" "rest = []" by (simp_all add: timer_first_def)
  from wait_skip [OF assms(1) e(1), of m t] assms(3,4) e(2) show ?thesis by simp
qed

lemma wait_event:
  assumes "watcher r \<noteq> None" and "feed w = pre @ Deliver event # rest"
    and "list_all (skipped (filePath r) m (0 < t)) pre"
    and "m AND Op event = Op event" and "Name event = filePath r"
  shows "waitForEventWithTimeout r m t w =
           Returns ((None, Op event), (pass_over pre w)\<lparr>feed := rest\<rparr>)"
  using wait_skip [OF assms(1,2,3)] assms(4,5) by simp

lemma wait_nothing:
  assumes "watcher r \<noteq> None" and "\<not> 0 < t"
    and "list_all (skipped (filePath r) m False) (feed w)"
  shows "waitForEventWithTimeout r m t w = Blocks"
  using wait_skip [OF assms(1), of w "feed w" "[]" m t] assms(2,3) by simp

definition blocks :: "'a outcome \<Rightarrow> bool" where
  "blocks x = (case x of Blocks \<Rightarrow> True | Panics \<Rightarrow> False | Returns y \<Rightarrow> False)"

lemma select_loop_feed_irrelevant:
  "select_loop fp m t xs (w\<lparr>feed := ys\<rparr>) = select_loop fp m t xs (w\<lparr>feed := zs\<rparr>)"
proof (induction fp m t xs w rule: select_loop.induct)
  case (2 fp eventType timer a rest w)
  have "\<And>ys. apply_fs a (w\<lparr>feed := ys\<rparr>) = (apply_fs a w)\<lparr>feed := ys\<rparr>"
    by (cases a) (auto simp: new_inode_def update_inode_def split: option.splits)
  with 2 show ?case by simp
qed auto


lemma wait_skip_head:
  assumes "watcher r \<noteq> None" and "Name event \<noteq> filePath r \<or> m AND Op event \<noteq> Op event"
  shows "waitForEventWithTimeout r m t (w\<lparr>feed := Deliver event # rest\<rparr>) =
         waitForEventWithTimeout r m t (w\<lparr>feed := rest\<rparr>)"
proof -
  from assms(1) obtain u where u: "watcher r = Some u" by auto
  have "select_loop (filePath r) m (0 < t) (Deliver event # rest) (w\<lparr>feed := Deliver event # rest\<rparr>)
        = select_loop (filePath r) m (0 < t) rest (w\<lparr>feed := Deliver event # rest\<rparr>)"
    using assms(2) by auto
  also have "\<dots> = select_loop (filePath r) m (0 < t) rest (w\<lparr>feed := rest\<rparr>)"
    by (rule select_loop_feed_irrelevant)
  finally show ?thesis by (simp add: waitForEventWithTimeout_def u)
qed

lemma read_mask_kinds:
  "read_mask AND fsnotify_Write = fsnotify_Write"
  "read_mask AND fsnotify_Remove = fsnotify_Remove"
  "read_mask AND fsnotify_Rename = fsnotify_Rename"
  "read_mask AND fsnotify_Chmod = fsnotify_Chmod"
  "read_mask AND fsnotify_Create \<noteq> fsnotify_Create"
  by (simp_all add: read_mask_def fsnotify_Create_def fsnotify_Write_def fsnotify_Remove_def
        fsnotify_Rename_def fsnotify_Chmod_def)

lemma select_loop_error:
  "select_loop fp m t xs w = Returns ((Some x, ev), w') \<Longrightarrow>
     x = errTimeout \<or> (\<exists>c. x = WatcherError c)"
  by (induction fp m t xs w rule: select_loop.induct) (auto split: if_splits)

lemma read_data_Done_error:
  assumes "read_data sz (p, r, w) = Done ((n, Some e), st)"
  shows "\<exists>c. e = OsError c"
proof -
  obtain eo r1 w1 where o: "openFile r w = (eo, r1, w1)" by (cases "openFile r w") auto
  have oe: "\<And>x. eo = Some x \<Longrightarrow> \<exists>c. x = OsError c"
    using o by (auto simp: openFile_def os_Open_def split: if_splits option.splits)
  show ?thesis
  proof (cases "file' r1")
    case None
    with assms o oe show ?thesis
      by (auto simp: read_data_def split: if_splits option.splits)
  next
    case (Some fd)
    obtain n1 e1 p1 w2 where fr: "file_Read fd p w1 = ((n1, e1), p1, w2)"
      by (cases "file_Read fd p w1") auto
    have fe: "\<And>x. e1 = Some x \<Longrightarrow> x = EOF \<or> (\<exists>c. x = OsError c)"
      using fr by (auto simp: file_Read_def Let_def split: if_splits option.splits)
    from assms o Some fr oe fe show ?thesis
      by (auto simp: read_data_def split: if_splits option.splits)
  qed
qed

lemma read_wait_Done_error:
  assumes "read_wait (p, r, w) = Returns (Done ((n, Some e), st))"
  shows "e \<noteq> ErrWaitTimeout"
proof (cases "waitForEventWithTimeout r read_mask (IdleTimeout (options r)) w")
  case Blocks
  with assms show ?thesis by (simp add: read_wait_not_Returns)
next
  case Panics
  with assms show ?thesis by (simp add: read_wait_not_Returns)
next
  case (Returns y)
  obtain e1 ev w1 where y: "y = ((e1, ev), w1)" by (cases y) auto
  note wt = Returns [unfolded y]
  have we: "\<And>x. e1 = Some x \<Longrightarrow> x = errTimeout \<or> (\<exists>c. x = WatcherError c)"
    using wt select_loop_error by (auto simp: waitForEventWithTimeout_def split: option.splits)
  obtain e2 r2 w2 where cf: "closeFile r w1 = (e2, r2, w2)" by (cases "closeFile r w1") auto
  note assms [unfolded read_wait_Returns [OF wt] cf]
  with we show ?thesis by (auto split: if_splits)
qed

lemma Close_Returns:
  assumes "watcher r \<noteq> None" and "Close r w = Returns (e, r', w')"
  shows "watcher r' = None \<and> watcher_closed w' \<and>
         (watcher_close_error w = None \<longrightarrow>
            file' r' = None \<and> (\<forall>fd. file' r = Some fd \<longrightarrow> fds w' fd = None)) \<and>
         (watcher_close_error w \<noteq> None \<longrightarrow>
            e = watcher_close_error w \<and> file' r' = file' r \<and> offset r' = offset r \<and> fds w' = fds w)"
  using assms
  by (auto simp: Close_def watcher_Close_def closeFile_def file_Close_def Let_def
           split: option.splits if_splits prod.splits)

section \<open>Sequences of calls\<close>

text \<open>
  What a caller does with a reader after \<open>NewTailingReader\<close>: calls of \<open>Read\<close>,
  \<open>WaitForFile\<close> and \<open>Close\<close>, with changes made to the file system by other processes
  between the calls. A call that blocks or panics ends the sequence.
\<close>

datatype call = CallRead "byte list" | CallWaitForFile | CallClose | Elsewhere fs_action

fun exec :: "call list \<Rightarrow> TailingReader \<Rightarrow> world \<Rightarrow> (TailingReader \<times> world) outcome" where
  "exec [] r w = Returns (r, w)"
| "exec (CallRead p # calls) r w =
     (case Read r p w of
        Blocks \<Rightarrow> Blocks
      | Panics \<Rightarrow> Panics
      | Returns (res, p', r', w') \<Rightarrow> exec calls r' w')"
| "exec (CallWaitForFile # calls) r w =
     (case WaitForFile_method r w of
        Blocks \<Rightarrow> Blocks
      | Panics \<Rightarrow> Panics
      | Returns (err, r', w') \<Rightarrow> exec calls r' w')"
| "exec (CallClose # calls) r w =
     (case Close r w of
        Blocks \<Rightarrow> Blocks
      | Panics \<Rightarrow> Panics
      | Returns (err, r', w') \<Rightarrow> exec calls r' w')"
| "exec (Elsewhere a # calls) r w = exec calls r (apply_fs a w)"

lemma fds_apply_fs: "fds (apply_fs a w) = fds w"
  by (cases a) (auto simp: new_inode_def update_inode_def split: option.splits)

lemma Close_inv:
  assumes "reader_inv r" "handle_inv r w" "Close r w = Returns (e, r', w')"
  shows "reader_inv r' \<and> handle_inv r' w'"
proof -
  let ?r1 = "r\<lparr>watcher := None\<rparr>" and ?w1 = "w\<lparr>watcher_closed := True\<rparr>"
  have i: "reader_inv ?r1" "handle_inv ?r1 ?w1"
    using assms(1,2) by (auto simp: reader_inv_def handle_inv_def split: option.splits)
  obtain e2 r2 w2 where cf: "closeFile ?r1 ?w1 = (e2, r2, w2)"
    by (cases "closeFile ?r1 ?w1") auto
  from assms(3) have "(r', w') = (?r1, ?w1) \<or> (r', w') = (r2, w2)"
    by (auto simp: Close_def watcher_Close_def cf Let_def split: option.splits if_splits)
  with i closeFile_result [OF cf] show ?thesis by auto
qed

lemma exec_inv:
  "reader_inv r \<Longrightarrow> handle_inv r w \<Longrightarrow> exec calls r w = Returns (r', w') \<Longrightarrow>
     reader_inv r' \<and> handle_inv r' w'"
proof (induction calls r w rule: exec.induct)
  case (1 r w)
  then show ?case by simp
next
  case (2 p calls r w)
  from "2.prems"(3) obtain res p1 r1 w1 where
    rd: "Read r p w = Returns (res, p1, r1, w1)" and ex: "exec calls r1 w1 = Returns (r', w')"
    by (auto split: outcome.splits)
  obtain n e where res: "res = (n, e)" by (cases res) auto
  from Read_Returns [OF "2.prems"(1,2) rd [unfolded res]]
  have "reader_inv r1" "handle_inv r1 w1" by auto
  with "2.IH" [OF rd refl refl refl _ _ ex] show ?case by simp
next
  case (3 calls r w)
  from "3.prems"(3) obtain e r1 w1 where
    wf: "WaitForFile_method r w = Returns (e, r1, w1)" and ex: "exec calls r1 w1 = Returns (r', w')"
    by (auto split: outcome.splits)
  from wf obtain n where "waitForFile True r w = Returns ((n, e), r1, w1)"
    by (auto simp: WaitForFile_method_def split: outcome.splits)
  from waitForFile_inv [OF "3.prems"(1,2) this]
  have "reader_inv r1" "handle_inv r1 w1" by auto
  with "3.IH" [OF wf refl refl _ _ ex] show ?case by simp
next
  case (4 calls r w)
  from "4.prems"(3) obtain e r1 w1 where
    cl: "Close r w = Returns (e, r1, w1)" and ex: "exec calls r1 w1 = Returns (r', w')"
    by (auto split: outcome.splits)
  from Close_inv [OF "4.prems"(1,2) cl]
  have "reader_inv r1" "handle_inv r1 w1" by auto
  with "4.IH" [OF cl refl refl _ _ ex] show ?case by simp
next
  case (5 a calls r w)
  have "handle_inv r (apply_fs a w)"
    using "5.prems"(2) handle_inv_fds [of "apply_fs a w" w r] by (simp add: fds_apply_fs)
  with "5.IH" "5.prems" show ?case by simp
qed

section \<open>A concrete file and reader\<close>

text \<open>
  The file of the package's tests: a directory with one file holding the 13 bytes of
  "Hello, World!"; the handles the reader has open and what the feed will deliver are
  parameters. The reader is given by its options, its handle and its offset.
\<close>

definition ex_path :: path where "ex_path = ''/tmp/test/the-file-to-tail''"
definition ex_dir :: path where "ex_dir = ''/tmp/test''"

definition hello :: "byte list" where
  "hello = [72, 101, 108, 108, 111, 44, 32, 87, 111, 114, 108, 100, 33]"

definition ex_world :: "byte list \<Rightarrow> (nat \<rightharpoonup> nat \<times> nat) \<Rightarrow> env_item list \<Rightarrow> world" where
  "ex_world content handles items =
     \<lparr>names = [ex_dir \<mapsto> 0, ex_path \<mapsto> 1],
      inodes = [0 \<mapsto> \<lparr>i_dir = True, i_readable = True, i_data = []\<rparr>,
                1 \<mapsto> \<lparr>i_dir = False, i_readable = True, i_data = content\<rparr>],
      next_ino = 2, fds = handles, next_fd = 4, feed = items,
      new_watcher_error = None, watcher_close_error = None, watcher_closed = False\<rparr>"

definition ex_reader :: "Options \<Rightarrow> nat option \<Rightarrow> int \<Rightarrow> TailingReader" where
  "ex_reader opts h off =
     \<lparr>file' = h, filePath = ex_path, options = opts, watcher = Some (), offset = off\<rparr>"

definition ex_options :: Options where
  "ex_options = fold (\<lambda>option os. option os) DefaultOptions zero_Options"

definition Read_result :: "read_result outcome \<Rightarrow> (int \<times> error option) option" where
  "Read_result x = (case x of Returns (res, st) \<Rightarrow> Some res | Blocks \<Rightarrow> None | Panics \<Rightarrow> None)"

definition ex_removed :: "world \<Rightarrow> world" where
  "ex_removed w = apply_fs (FsRemove ex_path) w"

section \<open>The claims\<close>

text \<open>
  Claim C1. For a reader whose offset is the position of its handle: a \<open>Read\<close> that
  returns a positive count \<open>n\<close> returns no error, the first \<open>n\<close> bytes of the buffer
  are the bytes of the file behind the handle in the range from the old offset to the old
  offset plus \<open>n\<close>, and the offset is the old offset plus \<open>n\<close> (\<open>delivered\<close>). The old
  offset is the offset at which lines 183 to 200 read: the offset on entry, or 0 when the
  handle was closed and opened again during the call. A read of zero bytes without an
  error is never returned: \<open>Read\<close> returns no error only with a positive count, and after
  a read of zero bytes the pass is the wait for events.
\<close>

theorem Read_copies_file_bytes:
  assumes "reader_inv r" and "handle_inv r w"
  shows "(Read r p w = Returns ((n, err), p', r', w') \<and> 0 < n \<longrightarrow>
            err = None \<and> (delivered (offset r) n p p' r' w' \<or> delivered 0 n p p' r' w'))
       \<and> (Read r p w = Returns ((n, err), p', r', w') \<and> err = None \<longrightarrow> 0 < n)
       \<and> (read_data sz (p, r, w) = Done ((n, err), p', r', w') \<and> 0 < n \<longrightarrow>
            err = None \<and> delivered (offset r) n p p' r' w')
       \<and> (getFileSize r w = (sz, None) \<and> offset r \<le> sz \<and> file' r = Some fd \<and>
          file_Read fd p w = ((0, e), p2, w2) \<and> (e = None \<or> e = Some EOF) \<longrightarrow>
            read_pass (p, r, w) = read_wait (p, r, w))"
proof -
  have A: "Read r p w = Returns ((n, err), p', r', w') \<and> 0 < n \<longrightarrow>
            err = None \<and> (delivered (offset r) n p p' r' w' \<or> delivered 0 n p p' r' w')"
    using Read_Returns [OF assms, of p n err p' r' w'] by auto
  have B: "Read r p w = Returns ((n, err), p', r', w') \<and> err = None \<longrightarrow> 0 < n"
    using Read_Returns [OF assms, of p n err p' r' w'] by auto
  have C: "read_data sz (p, r, w) = Done ((n, err), p', r', w') \<and> 0 < n \<longrightarrow>
            err = None \<and> delivered (offset r) n p p' r' w'"
    using read_data_Done [OF assms, of sz p n err p' r' w'] by auto
  have D: "getFileSize r w = (sz, None) \<and> offset r \<le> sz \<and> file' r = Some fd \<and>
          file_Read fd p w = ((0, e), p2, w2) \<and> (e = None \<or> e = Some EOF) \<longrightarrow>
            read_pass (p, r, w) = read_wait (p, r, w)"
  proof
    assume a: "getFileSize r w = (sz, None) \<and> offset r \<le> sz \<and> file' r = Some fd \<and>
          file_Read fd p w = ((0, e), p2, w2) \<and> (e = None \<or> e = Some EOF)"
    then have fr: "file_Read fd p w = ((0, e), p2, w2)" by simp
    from file_Read_shape [OF fr] have same: "p2 = p" "w2 = w" by auto
    from a have wf: "waitForFile False r w = Returns ((sz, None), r, w)"
      by (simp add: waitForFile_found)
    from a have tr: "read_truncate sz (p, r, w) = Continue (p, r, w)"
      by (simp add: read_truncate_def)
    from a fr same have rd: "read_data sz (p, r, w) = Continue (p, r, w)"
      by (auto simp: read_data_def openFile_def)
    show "read_pass (p, r, w) = read_wait (p, r, w)"
      by (simp add: read_pass_def wf tr rd)
  qed
  from A B C D show ?thesis by blast
qed

theorem Read_copies_file_bytes_witness:
  "reader_inv (ex_reader ex_options None 0) \<and>
   handle_inv (ex_reader ex_options None 0) (ex_world hello Map.empty []) \<and>
   (case Read (ex_reader ex_options None 0) (replicate 128 0) (ex_world hello Map.empty []) of
      Returns ((n, err), p', r', w') \<Rightarrow>
        n = 13 \<and> err = None \<and> take 13 p' = hello \<and> offset r' = 13 \<and>
        delivered 0 n (replicate 128 0) p' r' w'
    | _ \<Rightarrow> False) \<and>
   reader_inv (ex_reader ex_options (Some 3) 5) \<and>
   handle_inv (ex_reader ex_options (Some 3) 5) (ex_world hello [3 \<mapsto> (1, 5)] []) \<and>
   file_Read 3 [] (ex_world hello [3 \<mapsto> (1, 5)] []) =
     ((0, None), [], ex_world hello [3 \<mapsto> (1, 5)] []) \<and>
   read_pass ([], ex_reader ex_options (Some 3) 5, ex_world hello [3 \<mapsto> (1, 5)] []) =
     read_wait ([], ex_reader ex_options (Some 3) 5, ex_world hello [3 \<mapsto> (1, 5)] []) \<and>
   blocks (Read (ex_reader ex_options (Some 3) 5) [] (ex_world hello [3 \<mapsto> (1, 5)] []))"
proof -
  let ?r = "ex_reader ex_options None 0" and ?w = "ex_world hello Map.empty []"
  let ?p = "replicate 128 (0 :: byte)"
  let ?rb = "ex_reader ex_options (Some 3) 5" and ?wb = "ex_world hello [3 \<mapsto> (1, 5)] []"
  have b1: "reader_inv ?rb" by (simp add: reader_inv_def ex_reader_def)
  have b2: "handle_inv ?rb ?wb" by (simp add: handle_inv_def ex_reader_def ex_world_def)
  have b3: "file_Read 3 [] ?wb = ((0, None), [], ?wb)"
    by (simp add: file_Read_def ex_world_def)
  have b4: "getFileSize ?rb ?wb = (13, None)"
    by (simp add: getFileSize_def os_Stat_Size_def ex_reader_def ex_world_def ex_path_def
          ex_dir_def hello_def)
  have b5: "read_pass ([], ?rb, ?wb) = read_wait ([], ?rb, ?wb)"
    using Read_copies_file_bytes [OF b1 b2, of "[]" _ _ _ _ _ 13 3 None "[]" ?wb,
        THEN conjunct2, THEN conjunct2, THEN conjunct2] b3 b4
    by (simp add: ex_reader_def)
  have b6: "blocks (Read ?rb [] ?wb)" by code_simp
  have h1: "reader_inv ?r" by (simp add: reader_inv_def ex_reader_def)
  have h2: "handle_inv ?r ?w" by (simp add: handle_inv_def ex_reader_def)
  have "case Read ?r ?p ?w of
          Returns ((n, err), p', r', w') \<Rightarrow> n = 13 \<and> take 13 p' = hello \<and> offset r' = 13
        | _ \<Rightarrow> False"
    by code_simp
  then obtain n err p' r' w' where rd: "Read ?r ?p ?w = Returns ((n, err), p', r', w')"
    and v: "n = 13" "take 13 p' = hello" "offset r' = 13"
    by (auto split: outcome.splits)
  from Read_copies_file_bytes [OF h1 h2, of ?p n err p' r' w'] rd v
  have "err = None \<and> delivered 0 n ?p p' r' w'" by (auto simp: ex_reader_def)
  with h1 h2 rd v b1 b2 b3 b5 b6 show ?thesis by simp
qed

text \<open>
  Claim C10. Whatever \<open>Read\<close> returns: with an error the count is 0, and a positive
  count comes with no error.
\<close>

theorem Read_error_returns_no_bytes:
  assumes "Read r p w = Returns ((n, err), p', r', w')"
  shows "(err \<noteq> None \<longrightarrow> n = 0) \<and> (0 < n \<longrightarrow> err = None)"
proof -
  from assms obtain r0 p0 w0 where
    "read_pass (p0, r0, w0) = Returns (Done ((n, err), p', r', w'))"
    by (rule Read_last_pass)
  from read_pass_Done_shape [OF this] show ?thesis by auto
qed

theorem Read_error_returns_no_bytes_witness:
  "(case Read (ex_reader (WithIdleTimeout 1000000000 ex_options) (Some 3) 13) (replicate 128 0)
           (ex_world hello [3 \<mapsto> (1, 13)] [TimerFires]) of
      Returns ((n, err), p', r', w') \<Rightarrow> err = Some ErrIdleTimeout \<and> n = 0
    | _ \<Rightarrow> False)"
proof -
  let ?r = "ex_reader (WithIdleTimeout 1000000000 ex_options) (Some 3) 13"
  let ?w = "ex_world hello [3 \<mapsto> (1, 13)] [TimerFires]"
  let ?p = "replicate 128 (0 :: byte)"
  have "case Read ?r ?p ?w of
          Returns ((n, err), p', r', w') \<Rightarrow> err = Some ErrIdleTimeout
        | _ \<Rightarrow> False"
    by code_simp
  then obtain n err p' r' w' where rd: "Read ?r ?p ?w = Returns ((n, err), p', r', w')"
    and v: "err = Some ErrIdleTimeout"
    by (auto split: outcome.splits)
  from Read_error_returns_no_bytes [OF rd] v have "n = 0" by simp
  with rd v show ?thesis by simp
qed

text \<open>
  Claim C2. A \<open>Read\<close> whose \<open>waitForFile\<close> observes a size below the offset (a
  truncation) closes the handle: the reader has no handle, its offset is 0 and the
  descriptor is gone from the table. With \<open>CloseOnTruncate\<close> it returns 0 bytes and
  \<open>io.EOF\<close>.
  Without it the call goes on as a \<open>Read\<close> of the reader with no handle and offset 0
  does; when the file is a readable file with data and the buffer has room, that call
  opens a new handle and returns the start of the file, leaving the offset at the count.
\<close>

theorem Read_truncated:
  assumes "reader_inv r" and "waitForFile False r w = Returns ((sz, None), r1, w1)"
    and "sz < offset r1" and "closeFile r1 w1 = (e, r2, w2)"
  shows "file' r1 \<noteq> None \<and> file' r2 = None \<and> offset r2 = 0 \<and>
         (\<forall>fd. file' r1 = Some fd \<longrightarrow> fds w2 fd = None) \<and>
         (CloseOnTruncate (options r) \<longrightarrow> Read r p w = Returns ((0, Some EOF), p, r2, w2)) \<and>
         (\<not> CloseOnTruncate (options r) \<longrightarrow> Read r p w = Read r2 p w2) \<and>
         (\<not> CloseOnTruncate (options r) \<and> p \<noteq> [] \<and> names w1 (filePath r) = Some ino \<and>
          inodes w1 ino = Some nd \<and> \<not> i_dir nd \<and> i_readable nd \<and> i_data nd \<noteq> [] \<longrightarrow>
            Read r p w =
              Returns ((int (length (take (length p) (i_data nd))), None),
                       take (length p) (i_data nd) @ drop (length (take (length p) (i_data nd))) p,
                       r2\<lparr>file' := Some (next_fd w2),
                          offset := int (length (take (length p) (i_data nd)))\<rparr>,
                       w2\<lparr>fds := (fds w2)(next_fd w2 \<mapsto> (ino, length (take (length p) (i_data nd)))),
                          next_fd := Suc (next_fd w2)\<rparr>))"
proof -
  from waitForFile_Returns [OF assms(2)] have r1: "r1 = r" and gs: "getFileSize r w1 = (sz, None)"
    by auto
  have "waitForFile False r w = waitForFile False r w1"
    using assms(2) gs r1 by (simp add: waitForFile_found)
  then have "read_pass (p, r, w) = read_pass (p, r, w1)" by (rule read_pass_same_wait)
  then have eq: "Read r p w = Read r p w1" by (rule Read_same_pass)
  show ?thesis
    unfolding eq r1 by (rule Read_truncated_found [OF assms(1) gs assms(3,4) [unfolded r1]])
qed

theorem Read_truncated_witness:
  "reader_inv (ex_reader ex_options (Some 3) 13) \<and>
   waitForFile False (ex_reader ex_options (Some 3) 13) (ex_world [72, 105] [3 \<mapsto> (1, 13)] []) =
     Returns ((2, None), ex_reader ex_options (Some 3) 13, ex_world [72, 105] [3 \<mapsto> (1, 13)] []) \<and>
   2 < offset (ex_reader ex_options (Some 3) 13) \<and>
   (case Read (ex_reader ex_options (Some 3) 13) (replicate 8 0)
           (ex_world [72, 105] [3 \<mapsto> (1, 13)] []) of
      Returns ((n, err), p', r', w') \<Rightarrow>
        n = 2 \<and> err = None \<and> take 2 p' = [72, 105] \<and> offset r' = 2 \<and> file' r' = Some 4 \<and>
        fds w' 3 = None \<and> fds w' 4 = Some (1, 2)
    | _ \<Rightarrow> False) \<and>
   (case Read (ex_reader (WithCloseOnTruncate True ex_options) (Some 3) 13) (replicate 8 0)
           (ex_world [72, 105] [3 \<mapsto> (1, 13)] []) of
      Returns ((n, err), p', r', w') \<Rightarrow>
        n = 0 \<and> err = Some EOF \<and> file' r' = None \<and> offset r' = 0 \<and> fds w' 3 = None
    | _ \<Rightarrow> False)"
proof -
  let ?w = "ex_world [72, 105] [3 \<mapsto> (1, 13)] []"
  let ?r = "ex_reader ex_options (Some 3) 13"
  let ?rt = "ex_reader (WithCloseOnTruncate True ex_options) (Some 3) 13"
  let ?p = "replicate 8 (0 :: byte)"
  let ?w2 = "?w\<lparr>fds := (fds ?w)(3 := None)\<rparr>"
  have o: "\<not> CloseOnTruncate ex_options"
    by (simp add: ex_options_def DefaultOptions_def zero_Options_def WithWaitForFile_def
          WithCloseOnDelete_def)
  have h1: "reader_inv ?r" and h1t: "reader_inv ?rt"
    by (simp_all add: reader_inv_def ex_reader_def)
  have "getFileSize ?r ?w = (2, None)" and "getFileSize ?rt ?w = (2, None)"
    by (simp_all add: getFileSize_def os_Stat_Size_def ex_reader_def ex_world_def ex_path_def ex_dir_def)
  then have h2: "waitForFile False ?r ?w = Returns ((2, None), ?r, ?w)"
    and h2t: "waitForFile False ?rt ?w = Returns ((2, None), ?rt, ?w)"
    by (simp_all add: waitForFile_found)
  have h3: "2 < offset ?r" and h3t: "2 < offset ?rt" by (simp_all add: ex_reader_def)
  have cf: "closeFile ?r ?w = (None, ?r\<lparr>file' := None, offset := 0\<rparr>, ?w2)"
    by (simp add: closeFile_def file_Close_def ex_reader_def ex_world_def)
  have cft: "closeFile ?rt ?w = (None, ?rt\<lparr>file' := None, offset := 0\<rparr>, ?w2)"
    by (simp add: closeFile_def file_Close_def ex_reader_def ex_world_def)
  have nm: "names ?w (filePath ?r) = Some 1"
    by (simp add: ex_reader_def ex_world_def ex_path_def ex_dir_def)
  have ino: "inodes ?w 1 = Some \<lparr>i_dir = False, i_readable = True, i_data = [72, 105]\<rparr>"
    by (simp add: ex_world_def)
  note T = Read_truncated [OF h1 h2 h3 cf, of ?p 1
      "\<lparr>i_dir = False, i_readable = True, i_data = [72, 105]\<rparr>"]
  from T [THEN conjunct2, THEN conjunct2, THEN conjunct2, THEN conjunct2, THEN conjunct2,
      THEN conjunct2] o nm ino
  have A: "case Read ?r ?p ?w of
      Returns ((n, err), p', r', w') \<Rightarrow>
        n = 2 \<and> err = None \<and> take 2 p' = [72, 105] \<and> offset r' = 2 \<and> file' r' = Some 4 \<and>
        fds w' 3 = None \<and> fds w' 4 = Some (1, 2)
    | _ \<Rightarrow> False"
    by (simp add: ex_reader_def ex_world_def)
  from Read_truncated [OF h1t h2t h3t cft, of ?p]
  have B: "case Read ?rt ?p ?w of
      Returns ((n, err), p', r', w') \<Rightarrow>
        n = 0 \<and> err = Some EOF \<and> file' r' = None \<and> offset r' = 0 \<and> fds w' 3 = None
    | _ \<Rightarrow> False"
    by (simp add: ex_reader_def ex_world_def WithCloseOnTruncate_def)
  from h1 h2 h3 A B show ?thesis by simp
qed

text \<open>
  The claim C3 lets an open handle turn the absence of the file into a deletion whatever
  \<open>WaitForFile\<close> is; the code asks \<open>WaitForFile\<close> first. With \<open>WaitForFile\<close> false,
  \<open>CloseOnDelete\<close> true and a handle open, \<open>Read\<close> of an absent file returns the error
  of \<open>os.Stat\<close>, not \<open>io.EOF\<close>.
\<close>

theorem Read_absent_counterexample:
  "file' (ex_reader (WithCloseOnDelete True (WithWaitForFile False 0 ex_options)) (Some 3) 13) = Some 3 \<and>
   CloseOnDelete (options (ex_reader (WithCloseOnDelete True (WithWaitForFile False 0 ex_options)) (Some 3) 13)) \<and>
   getFileSize (ex_reader (WithCloseOnDelete True (WithWaitForFile False 0 ex_options)) (Some 3) 13)
     (ex_removed (ex_world hello [3 \<mapsto> (1, 13)] [])) = (0, Some (OsError ENOENT)) \<and>
   Read_result (Read (ex_reader (WithCloseOnDelete True (WithWaitForFile False 0 ex_options)) (Some 3) 13)
     (replicate 128 0) (ex_removed (ex_world hello [3 \<mapsto> (1, 13)] []))) = Some (0, Some (OsError ENOENT))"
  by code_simp

text \<open>
  Claim C3, as the code has it. When \<open>Read\<close> finds the file absent: with \<open>WaitForFile\<close>
  false it returns the error of \<open>os.Stat\<close> at once, with the reader and the world as they
  were, whether or not a handle is open; with \<open>WaitForFile\<close> true, a handle open and
  \<open>CloseOnDelete\<close> true it closes the handle and returns \<open>io.EOF\<close>; with \<open>WaitForFile\<close>
  true and no handle it waits for a creation event of the path, bounded by
  \<open>WaitForFileTimeout\<close>, and then looks again.
\<close>

theorem Read_file_absent:
  assumes "getFileSize r w = (sz, Some err)"
  shows "(\<not> WaitForFile (options r) \<longrightarrow> Read r p w = Returns ((0, Some err), p, r, w)) \<and>
         (WaitForFile (options r) \<and> file' r \<noteq> None \<and> CloseOnDelete (options r) \<longrightarrow>
            (\<forall>e r2 w2. closeFile r w = (e, r2, w2) \<longrightarrow>
               Read r p w = Returns ((0, Some EOF), p, r2, w2) \<and> file' r2 = None \<and>
               offset r2 = 0 \<and> (\<forall>fd. file' r = Some fd \<longrightarrow> fds w2 fd = None))) \<and>
         (WaitForFile (options r) \<and> file' r = None \<longrightarrow>
            Read r p w =
              (case waitForEventWithTimeout r fsnotify_Create (WaitForFileTimeout (options r)) w of
                 Blocks \<Rightarrow> Blocks
               | Panics \<Rightarrow> Panics
               | Returns ((e, ev), w') \<Rightarrow>
                   if e = Some errTimeout
                   then Returns ((0, Some (if TreatTimeoutsAsEOF (options r) then EOF
                                           else ErrWaitTimeout)), p, r, w')
                   else if e \<noteq> None then Returns ((0, e), p, r, w')
                   else Read r p w'))"
proof -
  have A: "\<not> WaitForFile (options r) \<longrightarrow> Read r p w = Returns ((0, Some err), p, r, w)"
  proof
    assume "\<not> WaitForFile (options r)"
    with assms have "waitForFile False r w = Returns ((0, Some err), r, w)"
      by (simp add: waitForFile_absent_nowait)
    then have "read_pass (p, r, w) = Returns (Done ((0, Some err), p, r, w))"
      by (simp add: read_pass_def)
    then show "Read r p w = Returns ((0, Some err), p, r, w)" by (rule Read_Done)
  qed
  have B: "WaitForFile (options r) \<and> file' r \<noteq> None \<and> CloseOnDelete (options r) \<longrightarrow>
            (\<forall>e r2 w2. closeFile r w = (e, r2, w2) \<longrightarrow>
               Read r p w = Returns ((0, Some EOF), p, r2, w2) \<and> file' r2 = None \<and>
               offset r2 = 0 \<and> (\<forall>fd. file' r = Some fd \<longrightarrow> fds w2 fd = None))"
  proof (intro impI allI)
    fix e r2 w2
    assume a: "WaitForFile (options r) \<and> file' r \<noteq> None \<and> CloseOnDelete (options r)"
      and cf: "closeFile r w = (e, r2, w2)"
    from a obtain fd where fd: "file' r = Some fd" by auto
    note cs = closeFile_Some [OF fd cf]
    from assms a cf have "waitForFile False r w = Returns ((0, Some EOF), r2, w2)"
      by (simp add: waitForFile_absent_close)
    then have "read_pass (p, r, w) = Returns (Done ((0, Some EOF), p, r2, w2))"
      by (simp add: read_pass_def)
    then have "Read r p w = Returns ((0, Some EOF), p, r2, w2)" by (rule Read_Done)
    with cs fd
    show "Read r p w = Returns ((0, Some EOF), p, r2, w2) \<and> file' r2 = None \<and>
               offset r2 = 0 \<and> (\<forall>fd. file' r = Some fd \<longrightarrow> fds w2 fd = None)"
      by simp
  qed
  have C: "WaitForFile (options r) \<and> file' r = None \<longrightarrow>
            Read r p w =
              (case waitForEventWithTimeout r fsnotify_Create (WaitForFileTimeout (options r)) w of
                 Blocks \<Rightarrow> Blocks
               | Panics \<Rightarrow> Panics
               | Returns ((e, ev), w') \<Rightarrow>
                   if e = Some errTimeout
                   then Returns ((0, Some (if TreatTimeoutsAsEOF (options r) then EOF
                                           else ErrWaitTimeout)), p, r, w')
                   else if e \<noteq> None then Returns ((0, e), p, r, w')
                   else Read r p w')"
  proof
    assume a: "WaitForFile (options r) \<and> file' r = None"
    then have u: "waitForFile False r w =
       (case waitForEventWithTimeout r fsnotify_Create (WaitForFileTimeout (options r)) w of
          Blocks \<Rightarrow> Blocks
        | Panics \<Rightarrow> Panics
        | Returns ((err, event), w') \<Rightarrow>
            if err = Some errTimeout
            then (if TreatTimeoutsAsEOF (options r) then Returns ((0, Some EOF), r, w')
                  else Returns ((0, Some ErrWaitTimeout), r, w'))
            else if err \<noteq> None then Returns ((0, err), r, w')
            else waitForFile False r w')"
      using assms by (intro waitForFile_absent_wait) auto
    show "Read r p w =
              (case waitForEventWithTimeout r fsnotify_Create (WaitForFileTimeout (options r)) w of
                 Blocks \<Rightarrow> Blocks
               | Panics \<Rightarrow> Panics
               | Returns ((e, ev), w') \<Rightarrow>
                   if e = Some errTimeout
                   then Returns ((0, Some (if TreatTimeoutsAsEOF (options r) then EOF
                                           else ErrWaitTimeout)), p, r, w')
                   else if e \<noteq> None then Returns ((0, e), p, r, w')
                   else Read r p w')"
    proof (cases "waitForEventWithTimeout r fsnotify_Create (WaitForFileTimeout (options r)) w")
      case Blocks
      with u have "read_pass (p, r, w) = Blocks" by (simp add: read_pass_def)
      then have "Read r p w = Blocks" by (rule Read_Blocks)
      with Blocks show ?thesis by simp
    next
      case Panics
      with u have "read_pass (p, r, w) = Panics" by (simp add: read_pass_def)
      then have "Read r p w = Panics" by (rule Read_Panics)
      with Panics show ?thesis by simp
    next
      case (Returns y)
      obtain e ev w' where y: "y = ((e, ev), w')" by (cases y) auto
      note R = Returns [unfolded y]
      show ?thesis
      proof (cases "e = None")
        case True
        with u R have "waitForFile False r w = waitForFile False r w'" by simp
        then have "read_pass (p, r, w) = read_pass (p, r, w')" by (rule read_pass_same_wait)
        then have "Read r p w = Read r p w'" by (rule Read_same_pass)
        with R True show ?thesis by simp
      next
        case False
        let ?e = "if e = Some errTimeout
                  then Some (if TreatTimeoutsAsEOF (options r) then EOF else ErrWaitTimeout) else e"
        from False u R have "waitForFile False r w = Returns ((0, ?e), r, w')" by auto
        with False have "read_pass (p, r, w) = Returns (Done ((0, ?e), p, r, w'))"
          by (auto simp: read_pass_def)
        then have "Read r p w = Returns ((0, ?e), p, r, w')" by (rule Read_Done)
        with R False show ?thesis by auto
      qed
    qed
  qed
  from A B C show ?thesis by blast
qed


theorem Read_file_absent_witness:
  "getFileSize (ex_reader (WithWaitForFile False 0 ex_options) None 0)
     (ex_removed (ex_world hello Map.empty [])) = (0, Some (OsError ENOENT)) \<and>
   Read (ex_reader (WithWaitForFile False 0 ex_options) None 0) (replicate 128 0)
     (ex_removed (ex_world hello Map.empty [])) =
     Returns ((0, Some (OsError ENOENT)), replicate 128 0,
              ex_reader (WithWaitForFile False 0 ex_options) None 0,
              ex_removed (ex_world hello Map.empty [])) \<and>
   (case Read (ex_reader (WithCloseOnDelete True ex_options) (Some 3) 13) (replicate 128 0)
           (ex_removed (ex_world hello [3 \<mapsto> (1, 13)] [])) of
      Returns ((n, err), p', r', w') \<Rightarrow>
        n = 0 \<and> err = Some EOF \<and> file' r' = None \<and> offset r' = 0 \<and> fds w' 3 = None
    | _ \<Rightarrow> False) \<and>
   Read_result (Read (ex_reader (WithWaitForFile True 1000000000 ex_options) None 0) (replicate 128 0)
     (ex_removed (ex_world hello Map.empty [TimerFires]))) = Some (0, Some ErrWaitTimeout)"
proof -
  let ?p = "replicate 128 (0 :: byte)"
  let ?r1 = "ex_reader (WithWaitForFile False 0 ex_options) None 0"
  let ?w1 = "ex_removed (ex_world hello Map.empty [])"
  let ?r2 = "ex_reader (WithCloseOnDelete True ex_options) (Some 3) 13"
  let ?w2 = "ex_removed (ex_world hello [3 \<mapsto> (1, 13)] [])"
  let ?r3 = "ex_reader (WithWaitForFile True 1000000000 ex_options) None 0"
  let ?w3 = "ex_removed (ex_world hello Map.empty [TimerFires])"
  note defs = getFileSize_def os_Stat_Size_def ex_reader_def ex_world_def ex_removed_def
    ex_path_def ex_dir_def ex_options_def DefaultOptions_def zero_Options_def
    WithWaitForFile_def WithCloseOnDelete_def
  have g1: "getFileSize ?r1 ?w1 = (0, Some (OsError ENOENT))" by (simp add: defs)
  have g2: "getFileSize ?r2 ?w2 = (0, Some (OsError ENOENT))" by (simp add: defs)
  have g3: "getFileSize ?r3 ?w3 = (0, Some (OsError ENOENT))" by (simp add: defs)
  have A: "Read ?r1 ?p ?w1 = Returns ((0, Some (OsError ENOENT)), ?p, ?r1, ?w1)"
    using Read_file_absent [OF g1, of ?p, THEN conjunct1] by (simp add: defs)
  have cf: "closeFile ?r2 ?w2 =
      (None, ?r2\<lparr>file' := None, offset := 0\<rparr>, ?w2\<lparr>fds := (fds ?w2)(3 := None)\<rparr>)"
    by (simp add: closeFile_def file_Close_def defs)
  have B: "case Read ?r2 ?p ?w2 of
      Returns ((n, err), p', r', w') \<Rightarrow>
        n = 0 \<and> err = Some EOF \<and> file' r' = None \<and> offset r' = 0 \<and> fds w' 3 = None
    | _ \<Rightarrow> False"
    using Read_file_absent [OF g2, of ?p, THEN conjunct2, THEN conjunct1] cf
    by (simp add: defs)
  have wt: "waitForEventWithTimeout ?r3 fsnotify_Create (WaitForFileTimeout (options ?r3)) ?w3 =
      Returns ((Some errTimeout, 0), ?w3\<lparr>feed := []\<rparr>)"
    by (simp add: waitForEventWithTimeout_def defs)
  have C: "Read_result (Read ?r3 ?p ?w3) = Some (0, Some ErrWaitTimeout)"
    using Read_file_absent [OF g3, of ?p, THEN conjunct2, THEN conjunct2]
    by (simp add: wt Read_result_def) (simp add: defs)
  from g1 A B C show ?thesis by simp
qed

text \<open>
  Against the claim C4 as it is written: with a handle open and \<open>CloseOnDelete\<close> set,
  \<open>WaitForFile\<close> of an absent file returns \<open>io.EOF\<close> at once, with no timeout set and
  \<open>TreatTimeoutsAsEOF\<close> false; and for files of 13 and of 2 bytes the method returns the
  same value \<open>nil\<close>: its only result is an error, the size stays inside \<open>waitForFile\<close>.
\<close>

theorem WaitForFile_counterexample:
  "WaitForFileTimeout (options (ex_reader (WithCloseOnDelete True ex_options) (Some 3) 13)) = 0 \<and>
   \<not> TreatTimeoutsAsEOF (options (ex_reader (WithCloseOnDelete True ex_options) (Some 3) 13)) \<and>
   getFileSize (ex_reader (WithCloseOnDelete True ex_options) (Some 3) 13)
     (ex_removed (ex_world hello [3 \<mapsto> (1, 13)] [])) = (0, Some (OsError ENOENT)) \<and>
   returned_error (WaitForFile_method (ex_reader (WithCloseOnDelete True ex_options) (Some 3) 13)
     (ex_removed (ex_world hello [3 \<mapsto> (1, 13)] []))) = Some (Some EOF) \<and>
   returned_error (WaitForFile_method (ex_reader ex_options None 0) (ex_world hello Map.empty []))
     = Some None \<and>
   returned_error (WaitForFile_method (ex_reader ex_options None 0) (ex_world [72, 105] Map.empty []))
     = Some None"
  by code_simp

text \<open>
  Claim C4, as the code has it, whatever the option \<open>WaitForFile\<close> is (no part assumes
  it). When the file exists \<open>waitForFile\<close> finds its size and \<open>WaitForFile\<close> returns \<open>nil\<close>
  at once; a return of \<open>nil\<close> means the file exists. When the file is absent, a handle is
  open and \<open>CloseOnDelete\<close> is set, the handle is closed and \<open>io.EOF\<close> returned. Otherwise
  it waits: without a timeout it blocks while nothing but skipped items arrive; after a
  creation event of the path it looks again; and when the timer of \<open>WaitForFileTimeout\<close>
  fires first it returns \<open>ErrWaitTimeout\<close>, or \<open>io.EOF\<close> with \<open>TreatTimeoutsAsEOF\<close>.
\<close>

theorem WaitForFile_waits:
  assumes "watcher r \<noteq> None"
  shows "(getFileSize r w = (sz, None) \<longrightarrow>
            waitForFile True r w = Returns ((sz, None), r, w) \<and>
            WaitForFile_method r w = Returns (None, r, w)) \<and>
         (WaitForFile_method r w = Returns (None, r', w') \<longrightarrow>
            r' = r \<and> snd (getFileSize r w') = None) \<and>
         (getFileSize r w = (sz, Some err) \<and> file' r \<noteq> None \<and> CloseOnDelete (options r) \<longrightarrow>
            WaitForFile_method r w =
              (case closeFile r w of (e, r2, w2) \<Rightarrow> Returns (Some EOF, r2, w2))) \<and>
         (getFileSize r w = (sz, Some err) \<and> (file' r = None \<or> \<not> CloseOnDelete (options r)) \<and>
          \<not> 0 < WaitForFileTimeout (options r) \<and>
          list_all (skipped (filePath r) fsnotify_Create False) (feed w)
            \<longrightarrow> WaitForFile_method r w = Blocks) \<and>
         (getFileSize r w = (sz, Some err) \<and> (file' r = None \<or> \<not> CloseOnDelete (options r)) \<and>
          feed w = pre @ Deliver \<lparr>Name = filePath r, Op = fsnotify_Create\<rparr> # rest \<and>
          list_all (skipped (filePath r) fsnotify_Create (0 < WaitForFileTimeout (options r))) pre
            \<longrightarrow> WaitForFile_method r w =
                  WaitForFile_method r ((pass_over pre w)\<lparr>feed := rest\<rparr>)) \<and>
         (getFileSize r w = (sz, Some err) \<and> (file' r = None \<or> \<not> CloseOnDelete (options r)) \<and>
          0 < WaitForFileTimeout (options r) \<and> timer_first (feed w) pre rest \<and>
          list_all (skipped (filePath r) fsnotify_Create True) pre
            \<longrightarrow> WaitForFile_method r w =
                  Returns (Some (if TreatTimeoutsAsEOF (options r) then EOF else ErrWaitTimeout),
                           r, (pass_over pre w)\<lparr>feed := rest\<rparr>))"
proof -
  let ?t = "WaitForFileTimeout (options r)"
  have A: "getFileSize r w = (sz, None) \<longrightarrow>
            waitForFile True r w = Returns ((sz, None), r, w) \<and>
            WaitForFile_method r w = Returns (None, r, w)"
    by (simp add: WaitForFile_method_def waitForFile_found)
  have B: "WaitForFile_method r w = Returns (None, r', w') \<longrightarrow>
            r' = r \<and> snd (getFileSize r w') = None"
  proof
    assume "WaitForFile_method r w = Returns (None, r', w')"
    then obtain n where "waitForFile True r w = Returns ((n, None), r', w')"
      by (auto simp: WaitForFile_method_def split: outcome.splits)
    from waitForFile_Returns [OF this] show "r' = r \<and> snd (getFileSize r w') = None" by auto
  qed
  have C: "getFileSize r w = (sz, Some err) \<and> file' r \<noteq> None \<and> CloseOnDelete (options r) \<longrightarrow>
            WaitForFile_method r w =
              (case closeFile r w of (e, r2, w2) \<Rightarrow> Returns (Some EOF, r2, w2))"
    by (auto simp: WaitForFile_method_def waitForFile_absent_close split: prod.splits)
  have u: "getFileSize r w = (sz, Some err) \<and> (file' r = None \<or> \<not> CloseOnDelete (options r)) \<Longrightarrow>
     waitForFile True r w =
       (case waitForEventWithTimeout r fsnotify_Create ?t w of
          Blocks \<Rightarrow> Blocks
        | Panics \<Rightarrow> Panics
        | Returns ((err, event), w') \<Rightarrow>
            if err = Some errTimeout
            then (if TreatTimeoutsAsEOF (options r) then Returns ((0, Some EOF), r, w')
                  else Returns ((0, Some ErrWaitTimeout), r, w'))
            else if err \<noteq> None then Returns ((0, err), r, w')
            else waitForFile True r w')"
    by (intro waitForFile_absent_wait) auto
  have D: "getFileSize r w = (sz, Some err) \<and> (file' r = None \<or> \<not> CloseOnDelete (options r)) \<and>
          \<not> 0 < ?t \<and> list_all (skipped (filePath r) fsnotify_Create False) (feed w)
            \<longrightarrow> WaitForFile_method r w = Blocks"
  proof
    assume a: "getFileSize r w = (sz, Some err) \<and> (file' r = None \<or> \<not> CloseOnDelete (options r)) \<and>
          \<not> 0 < ?t \<and> list_all (skipped (filePath r) fsnotify_Create False) (feed w)"
    then have "waitForEventWithTimeout r fsnotify_Create ?t w = Blocks"
      using wait_nothing [OF assms] by simp
    with u a show "WaitForFile_method r w = Blocks"
      by (simp add: WaitForFile_method_def)
  qed
  have E: "getFileSize r w = (sz, Some err) \<and> (file' r = None \<or> \<not> CloseOnDelete (options r)) \<and>
          feed w = pre @ Deliver \<lparr>Name = filePath r, Op = fsnotify_Create\<rparr> # rest \<and>
          list_all (skipped (filePath r) fsnotify_Create (0 < ?t)) pre
            \<longrightarrow> WaitForFile_method r w =
                  WaitForFile_method r ((pass_over pre w)\<lparr>feed := rest\<rparr>)"
  proof
    assume a: "getFileSize r w = (sz, Some err) \<and> (file' r = None \<or> \<not> CloseOnDelete (options r)) \<and>
          feed w = pre @ Deliver \<lparr>Name = filePath r, Op = fsnotify_Create\<rparr> # rest \<and>
          list_all (skipped (filePath r) fsnotify_Create (0 < ?t)) pre"
    then have "waitForEventWithTimeout r fsnotify_Create ?t w =
        Returns ((None, fsnotify_Create), (pass_over pre w)\<lparr>feed := rest\<rparr>)"
      using wait_event [OF assms, of w pre "\<lparr>Name = filePath r, Op = fsnotify_Create\<rparr>" rest
          fsnotify_Create ?t]
      by simp
    with u a have "waitForFile True r w = waitForFile True r ((pass_over pre w)\<lparr>feed := rest\<rparr>)"
      by simp
    then show "WaitForFile_method r w = WaitForFile_method r ((pass_over pre w)\<lparr>feed := rest\<rparr>)"
      by (simp add: WaitForFile_method_def)
  qed
  have F: "getFileSize r w = (sz, Some err) \<and> (file' r = None \<or> \<not> CloseOnDelete (options r)) \<and>
          0 < ?t \<and> timer_first (feed w) pre rest \<and>
          list_all (skipped (filePath r) fsnotify_Create True) pre
            \<longrightarrow> WaitForFile_method r w =
                  Returns (Some (if TreatTimeoutsAsEOF (options r) then EOF else ErrWaitTimeout),
                           r, (pass_over pre w)\<lparr>feed := rest\<rparr>)"
  proof
    assume a: "getFileSize r w = (sz, Some err) \<and> (file' r = None \<or> \<not> CloseOnDelete (options r)) \<and>
          0 < ?t \<and> timer_first (feed w) pre rest \<and>
          list_all (skipped (filePath r) fsnotify_Create True) pre"
    then have "waitForEventWithTimeout r fsnotify_Create ?t w =
        Returns ((Some errTimeout, 0), (pass_over pre w)\<lparr>feed := rest\<rparr>)"
      using wait_timer [OF assms, of w pre rest fsnotify_Create ?t] by simp
    with u a show "WaitForFile_method r w =
                  Returns (Some (if TreatTimeoutsAsEOF (options r) then EOF else ErrWaitTimeout),
                           r, (pass_over pre w)\<lparr>feed := rest\<rparr>)"
      by (simp add: WaitForFile_method_def)
  qed
  from A B C D E F show ?thesis by blast
qed


theorem WaitForFile_waits_witness:
  "watcher (ex_reader (WithWaitForFile False 1000000000 ex_options) None 0) \<noteq> None \<and>
   waitForFile True (ex_reader (WithWaitForFile False 1000000000 ex_options) None 0)
       (ex_world hello Map.empty []) =
     Returns ((13, None), ex_reader (WithWaitForFile False 1000000000 ex_options) None 0,
              ex_world hello Map.empty []) \<and>
   returned_error (WaitForFile_method (ex_reader (WithWaitForFile False 1000000000 ex_options) None 0)
       (ex_world hello Map.empty [])) = Some None \<and>
   returned_error (WaitForFile_method (ex_reader (WithWaitForFile False 1000000000 ex_options) None 0)
       (ex_removed (ex_world hello Map.empty
          [Deliver \<lparr>Name = ''/tmp/test/other'', Op = fsnotify_Create\<rparr>, TimerFires])))
     = Some (Some ErrWaitTimeout) \<and>
   returned_error (WaitForFile_method
       (ex_reader (WithTimeoutsAsEOF True (WithWaitForFile False 1000000000 ex_options)) None 0)
       (ex_removed (ex_world hello Map.empty
          [Deliver \<lparr>Name = ''/tmp/test/other'', Op = fsnotify_Create\<rparr>, TimerFires])))
     = Some (Some EOF) \<and>
   returned_error (WaitForFile_method (ex_reader (WithWaitForFile False 1000000000 ex_options) None 0)
       (ex_removed (ex_world hello Map.empty
          [FsChange (FsCreate ex_path), Deliver \<lparr>Name = ex_path, Op = fsnotify_Create\<rparr>])))
     = Some None \<and>
   WaitForFile_method (ex_reader (WithWaitForFile False 0 ex_options) None 0)
       (ex_removed (ex_world hello Map.empty [])) = Blocks"
proof -
  let ?r = "ex_reader (WithWaitForFile False 1000000000 ex_options) None 0"
  let ?re = "ex_reader (WithTimeoutsAsEOF True (WithWaitForFile False 1000000000 ex_options)) None 0"
  let ?other = "Deliver \<lparr>Name = ''/tmp/test/other'', Op = fsnotify_Create\<rparr>"
  let ?wa = "ex_world hello Map.empty []"
  let ?wf = "ex_removed (ex_world hello Map.empty [?other, TimerFires])"
  let ?we = "ex_removed (ex_world hello Map.empty
          [FsChange (FsCreate ex_path), Deliver \<lparr>Name = ex_path, Op = fsnotify_Create\<rparr>])"
  let ?wd = "ex_removed (ex_world hello Map.empty [])"
  let ?rz = "ex_reader (WithWaitForFile False 0 ex_options) None 0"
  note defs = getFileSize_def os_Stat_Size_def ex_reader_def ex_world_def ex_removed_def
    ex_path_def ex_dir_def ex_options_def DefaultOptions_def zero_Options_def
    WithWaitForFile_def WithCloseOnDelete_def WithTimeoutsAsEOF_def hello_def
  have h: "watcher ?r \<noteq> None" and he: "watcher ?re \<noteq> None" by (simp_all add: ex_reader_def)
  have ga: "getFileSize ?r ?wa = (13, None)" by (simp add: defs)
  note A = WaitForFile_waits [OF h, of ?wa 13, THEN conjunct1, rule_format, OF ga]
  have gf: "getFileSize ?r ?wf = (0, Some (OsError ENOENT))" by (simp add: defs)
  have gfe: "getFileSize ?re ?wf = (0, Some (OsError ENOENT))" by (simp add: defs)
  have F: "returned_error (WaitForFile_method ?r ?wf) = Some (Some ErrWaitTimeout)"
    using WaitForFile_waits [OF h, of ?wf 0 _ _ "OsError ENOENT" "[?other]" "[]",
        THEN conjunct2, THEN conjunct2, THEN conjunct2, THEN conjunct2, THEN conjunct2] gf
    by (simp add: returned_error_def skipped_def fsnotify_Create_def timer_first_def)
       (simp add: defs)
  have F': "returned_error (WaitForFile_method ?re ?wf) = Some (Some EOF)"
    using WaitForFile_waits [OF he, of ?wf 0 _ _ "OsError ENOENT" "[?other]" "[]",
        THEN conjunct2, THEN conjunct2, THEN conjunct2, THEN conjunct2, THEN conjunct2] gfe
    by (simp add: returned_error_def skipped_def fsnotify_Create_def timer_first_def)
       (simp add: defs)
  have ge: "getFileSize ?r ?we = (0, Some (OsError ENOENT))" by (simp add: defs)
  let ?we2 = "(pass_over [FsChange (FsCreate ex_path)] ?we)\<lparr>feed := []\<rparr>"
  have ge2: "getFileSize ?r ?we2 = (0, None)" by (simp add: defs new_inode_def)
  have E1: "WaitForFile_method ?r ?we = WaitForFile_method ?r ?we2"
    using WaitForFile_waits [OF h, of ?we 0 _ _ "OsError ENOENT" "[FsChange (FsCreate ex_path)]" "[]",
        THEN conjunct2, THEN conjunct2, THEN conjunct2, THEN conjunct2, THEN conjunct1] ge
    by (simp add: skipped_def) (simp add: defs)
  note E2 = WaitForFile_waits [OF h, of ?we2 0, THEN conjunct1, rule_format, OF ge2]
  have E: "returned_error (WaitForFile_method ?r ?we) = Some None"
    using E1 E2 by (simp add: returned_error_def)
  have hz: "watcher ?rz \<noteq> None" by (simp add: ex_reader_def)
  have gd: "getFileSize ?rz ?wd = (0, Some (OsError ENOENT))" by (simp add: defs)
  have D: "WaitForFile_method ?rz ?wd = Blocks"
    using WaitForFile_waits [OF hz, of ?wd 0 _ _ "OsError ENOENT",
        THEN conjunct2, THEN conjunct2, THEN conjunct2, THEN conjunct1] gd
    by (simp add: defs)
  from h A F F' E D show ?thesis by (simp add: returned_error_def)
qed

text \<open>
  Claim C5. A reader with a watcher and a positive \<open>IdleTimeout\<close> is in the wait of
  \<open>Read\<close>, and the timer fires after nothing but skipped items arrived (\<open>timer_first\<close>):
  the wait returns 0 bytes with \<open>ErrIdleTimeout\<close>, or with \<open>io.EOF\<close> when
  \<open>TreatTimeoutsAsEOF\<close> is set, and so does every \<open>Read\<close> whose first pass is that wait,
  as when the file exists and the offset is its size.
\<close>

theorem Read_idle_timeout:
  assumes "watcher r \<noteq> None" and "0 < IdleTimeout (options r)"
    and "timer_first (feed w) pre rest"
    and "list_all (skipped (filePath r) read_mask True) pre"
  shows "read_wait (p, r, w) =
           Returns (Done ((0, Some (if TreatTimeoutsAsEOF (options r) then EOF else ErrIdleTimeout)),
                          p, r, (pass_over pre w)\<lparr>feed := rest\<rparr>)) \<and>
         (read_pass (p, r, w) = read_wait (p, r, w) \<longrightarrow>
            Read r p w =
              Returns ((0, Some (if TreatTimeoutsAsEOF (options r) then EOF else ErrIdleTimeout)),
                       p, r, (pass_over pre w)\<lparr>feed := rest\<rparr>)) \<and>
         (getFileSize r w = (sz, None) \<and> offset r = sz \<longrightarrow>
            Read r p w =
              Returns ((0, Some (if TreatTimeoutsAsEOF (options r) then EOF else ErrIdleTimeout)),
                       p, r, (pass_over pre w)\<lparr>feed := rest\<rparr>))"
proof -
  let ?res = "((0, Some (if TreatTimeoutsAsEOF (options r) then EOF else ErrIdleTimeout)),
                          p, r, (pass_over pre w)\<lparr>feed := rest\<rparr>)"
  have wt: "waitForEventWithTimeout r read_mask (IdleTimeout (options r)) w =
        Returns ((Some errTimeout, 0), (pass_over pre w)\<lparr>feed := rest\<rparr>)"
    using assms(1,3,4,2) by (rule wait_timer)
  have A: "read_wait (p, r, w) = Returns (Done ?res)"
    by (simp add: read_wait_Returns [OF wt])
  have B: "read_pass (p, r, w) = read_wait (p, r, w) \<longrightarrow> Read r p w = Returns ?res"
    using A by (auto intro: Read_Done)
  have C: "getFileSize r w = (sz, None) \<and> offset r = sz \<longrightarrow> Read r p w = Returns ?res"
  proof
    assume a: "getFileSize r w = (sz, None) \<and> offset r = sz"
    then have "read_pass (p, r, w) = read_wait (p, r, w)"
      by (simp add: read_pass_def waitForFile_found read_truncate_def read_data_def)
    with B show "Read r p w = Returns ?res" by simp
  qed
  from A B C show ?thesis by blast
qed

theorem Read_idle_timeout_witness:
  "watcher (ex_reader (WithIdleTimeout 1000000000 ex_options) (Some 3) 13) \<noteq> None \<and>
   0 < IdleTimeout (options (ex_reader (WithIdleTimeout 1000000000 ex_options) (Some 3) 13)) \<and>
   list_all (skipped (filePath (ex_reader (WithIdleTimeout 1000000000 ex_options) (Some 3) 13))
               read_mask True) [Deliver \<lparr>Name = ''/tmp/test/other'', Op = fsnotify_Write\<rparr>] \<and>
   Read_result (Read (ex_reader (WithIdleTimeout 1000000000 ex_options) (Some 3) 13) (replicate 128 0)
     (ex_world hello [3 \<mapsto> (1, 13)]
        [Deliver \<lparr>Name = ''/tmp/test/other'', Op = fsnotify_Write\<rparr>, TimerFires]))
     = Some (0, Some ErrIdleTimeout) \<and>
   Read_result (Read (ex_reader (WithTimeoutsAsEOF True (WithIdleTimeout 1000000000 ex_options)) (Some 3) 13)
     (replicate 128 0)
     (ex_world hello [3 \<mapsto> (1, 13)]
        [Deliver \<lparr>Name = ''/tmp/test/other'', Op = fsnotify_Write\<rparr>, TimerFires]))
     = Some (0, Some EOF)"
proof -
  let ?r = "ex_reader (WithIdleTimeout 1000000000 ex_options) (Some 3) 13"
  let ?re = "ex_reader (WithTimeoutsAsEOF True (WithIdleTimeout 1000000000 ex_options)) (Some 3) 13"
  let ?other = "Deliver \<lparr>Name = ''/tmp/test/other'', Op = fsnotify_Write\<rparr>"
  let ?w = "ex_world hello [3 \<mapsto> (1, 13)] [?other, TimerFires]"
  let ?p = "replicate 128 (0 :: byte)"
  note defs = getFileSize_def os_Stat_Size_def ex_reader_def ex_world_def
    ex_path_def ex_dir_def ex_options_def DefaultOptions_def zero_Options_def
    WithWaitForFile_def WithCloseOnDelete_def WithTimeoutsAsEOF_def WithIdleTimeout_def hello_def
  have h1: "watcher ?r \<noteq> None" and h1e: "watcher ?re \<noteq> None" by (simp_all add: ex_reader_def)
  have h2: "0 < IdleTimeout (options ?r)" and h2e: "0 < IdleTimeout (options ?re)"
    by (simp_all add: defs)
  have h3: "timer_first (feed ?w) [?other] []" by (simp add: timer_first_def ex_world_def)
  have h4: "list_all (skipped (filePath ?r) read_mask True) [?other]"
    and h4e: "list_all (skipped (filePath ?re) read_mask True) [?other]"
    by (simp_all add: skipped_def defs)
  have g: "getFileSize ?r ?w = (13, None)" and ge: "getFileSize ?re ?w = (13, None)"
    by (simp_all add: defs)
  have A: "Read_result (Read ?r ?p ?w) = Some (0, Some ErrIdleTimeout)"
    using Read_idle_timeout [OF h1 h2 h3 h4, of ?p 13, THEN conjunct2, THEN conjunct2] g
    by (simp add: Read_result_def) (simp add: defs)
  have B: "Read_result (Read ?re ?p ?w) = Some (0, Some EOF)"
    using Read_idle_timeout [OF h1e h2e h3 h4e, of ?p 13, THEN conjunct2, THEN conjunct2] ge
    by (simp add: Read_result_def) (simp add: defs)
  from h1 h2 h4 A B show ?thesis by simp
qed

text \<open>
  Against the claim C6 as it is written: the mask of the wait in \<open>Read\<close> (line 203) is
  \<open>Write|Remove|Rename|Chmod\<close>, and \<open>Create\<close> is not in it. For a reader at the end of its
  file, a creation event of the exact path does not end the wait (nothing else arrives,
  so \<open>Read\<close> blocks), where a write event does.
\<close>

theorem Read_wait_counterexample:
  "getFileSize (ex_reader ex_options (Some 3) 13)
     (ex_world hello [3 \<mapsto> (1, 13)] [Deliver \<lparr>Name = ex_path, Op = fsnotify_Create\<rparr>]) = (13, None) \<and>
   blocks (Read (ex_reader ex_options (Some 3) 13) (replicate 128 0)
     (ex_world hello [3 \<mapsto> (1, 13)] [Deliver \<lparr>Name = ex_path, Op = fsnotify_Create\<rparr>])) \<and>
   blocks (waitForEventWithTimeout (ex_reader ex_options (Some 3) 13) read_mask 0
     (ex_world hello [3 \<mapsto> (1, 13)] [Deliver \<lparr>Name = ex_path, Op = fsnotify_Create\<rparr>])) \<and>
   \<not> blocks (waitForEventWithTimeout (ex_reader ex_options (Some 3) 13) read_mask 0
     (ex_world hello [3 \<mapsto> (1, 13)] [Deliver \<lparr>Name = ex_path, Op = fsnotify_Write\<rparr>]))"
  by code_simp

text \<open>
  Claim C6, as the code has it. An event of another path, or with a kind outside the
  mask, is passed over by the wait of \<open>Read\<close>; an event of the reader's path whose kinds
  lie within the mask, so each of write, removal, rename and attribute change, ends the
  wait and is returned; a creation event is passed over.
\<close>

theorem Read_wait_events:
  assumes "watcher r \<noteq> None"
  shows "(Name event \<noteq> filePath r \<or> read_mask AND Op event \<noteq> Op event \<longrightarrow>
            waitForEventWithTimeout r read_mask t (w\<lparr>feed := Deliver event # rest\<rparr>) =
            waitForEventWithTimeout r read_mask t (w\<lparr>feed := rest\<rparr>) \<and>
            read_wait (p, r, w\<lparr>feed := Deliver event # rest\<rparr>) = read_wait (p, r, w\<lparr>feed := rest\<rparr>)) \<and>
         (Name event = filePath r \<and> read_mask AND Op event = Op event \<longrightarrow>
            waitForEventWithTimeout r read_mask t (w\<lparr>feed := Deliver event # rest\<rparr>) =
            Returns ((None, Op event), w\<lparr>feed := rest\<rparr>)) \<and>
         (Name event = filePath r \<and>
          (Op event = fsnotify_Write \<or> Op event = fsnotify_Remove \<or> Op event = fsnotify_Rename \<or>
           Op event = fsnotify_Chmod) \<longrightarrow>
            waitForEventWithTimeout r read_mask t (w\<lparr>feed := Deliver event # rest\<rparr>) =
            Returns ((None, Op event), w\<lparr>feed := rest\<rparr>)) \<and>
         (Op event = fsnotify_Create \<longrightarrow>
            waitForEventWithTimeout r read_mask t (w\<lparr>feed := Deliver event # rest\<rparr>) =
            waitForEventWithTimeout r read_mask t (w\<lparr>feed := rest\<rparr>))"
proof -
  from assms obtain u where u: "watcher r = Some u" by auto
  note skip = wait_skip_head [OF assms]
  have A: "Name event \<noteq> filePath r \<or> read_mask AND Op event \<noteq> Op event \<longrightarrow>
            waitForEventWithTimeout r read_mask t (w\<lparr>feed := Deliver event # rest\<rparr>) =
            waitForEventWithTimeout r read_mask t (w\<lparr>feed := rest\<rparr>) \<and>
            read_wait (p, r, w\<lparr>feed := Deliver event # rest\<rparr>) = read_wait (p, r, w\<lparr>feed := rest\<rparr>)"
    using skip [where event = "event" and m = read_mask and w = w and rest = rest]
    by (simp add: read_wait_def)
  have B: "Name event = filePath r \<and> read_mask AND Op event = Op event \<longrightarrow>
            waitForEventWithTimeout r read_mask t (w\<lparr>feed := Deliver event # rest\<rparr>) =
            Returns ((None, Op event), w\<lparr>feed := rest\<rparr>)"
    by (simp add: waitForEventWithTimeout_def u)
  have C: "Name event = filePath r \<and>
          (Op event = fsnotify_Write \<or> Op event = fsnotify_Remove \<or> Op event = fsnotify_Rename \<or>
           Op event = fsnotify_Chmod) \<longrightarrow>
            waitForEventWithTimeout r read_mask t (w\<lparr>feed := Deliver event # rest\<rparr>) =
            Returns ((None, Op event), w\<lparr>feed := rest\<rparr>)"
    using B read_mask_kinds(1-4) by auto
  have D: "Op event = fsnotify_Create \<longrightarrow>
            waitForEventWithTimeout r read_mask t (w\<lparr>feed := Deliver event # rest\<rparr>) =
            waitForEventWithTimeout r read_mask t (w\<lparr>feed := rest\<rparr>)"
    using skip [where event = "event" and m = read_mask and t = t and w = w and rest = rest]
      read_mask_kinds(5) by auto
  from A B C D show ?thesis by blast
qed

theorem Read_wait_events_witness:
  "watcher (ex_reader ex_options (Some 3) 13) \<noteq> None \<and>
   blocks (waitForEventWithTimeout (ex_reader ex_options (Some 3) 13) read_mask 0
     ((ex_world hello [3 \<mapsto> (1, 13)] [])
        \<lparr>feed := [Deliver \<lparr>Name = ''/tmp/test/other'', Op = fsnotify_Write\<rparr>]\<rparr>)) \<and>
   (case waitForEventWithTimeout (ex_reader ex_options (Some 3) 13) read_mask 0
     ((ex_world hello [3 \<mapsto> (1, 13)] [])
        \<lparr>feed := [Deliver \<lparr>Name = ex_path, Op = fsnotify_Write\<rparr>]\<rparr>) of
      Returns ((e, ev), w') \<Rightarrow> e = None \<and> ev = fsnotify_Write \<and> feed w' = []
    | _ \<Rightarrow> False) \<and>
   blocks (waitForEventWithTimeout (ex_reader ex_options (Some 3) 13) read_mask 0
     ((ex_world hello [3 \<mapsto> (1, 13)] [])
        \<lparr>feed := [Deliver \<lparr>Name = ex_path, Op = fsnotify_Create\<rparr>]\<rparr>))"
proof -
  let ?r = "ex_reader ex_options (Some 3) 13"
  let ?w = "ex_world hello [3 \<mapsto> (1, 13)] []"
  let ?sib = "\<lparr>Name = ''/tmp/test/other'', Op = fsnotify_Write\<rparr>"
  let ?wr = "\<lparr>Name = ex_path, Op = fsnotify_Write\<rparr>"
  let ?cr = "\<lparr>Name = ex_path, Op = fsnotify_Create\<rparr>"
  have h: "watcher ?r \<noteq> None" by (simp add: ex_reader_def)
  have e: "waitForEventWithTimeout ?r read_mask 0 (?w\<lparr>feed := []\<rparr>) = Blocks"
    by (simp add: waitForEventWithTimeout_def ex_reader_def)
  have A: "blocks (waitForEventWithTimeout ?r read_mask 0 (?w\<lparr>feed := [Deliver ?sib]\<rparr>))"
    using Read_wait_events [OF h, where event = "?sib" and t = 0 and w = "?w" and rest = "[]", THEN conjunct1] e
    by (simp add: blocks_def ex_reader_def ex_path_def)
  have B: "case waitForEventWithTimeout ?r read_mask 0 (?w\<lparr>feed := [Deliver ?wr]\<rparr>) of
      Returns ((e, ev), w') \<Rightarrow> e = None \<and> ev = fsnotify_Write \<and> feed w' = []
    | _ \<Rightarrow> False"
    using Read_wait_events [OF h, where event = "?wr" and t = 0 and w = "?w" and rest = "[]", THEN conjunct2, THEN conjunct2, THEN conjunct1]
    by (simp add: ex_reader_def)
  have C: "blocks (waitForEventWithTimeout ?r read_mask 0 (?w\<lparr>feed := [Deliver ?cr]\<rparr>))"
    using Read_wait_events [OF h, where event = "?cr" and t = 0 and w = "?w" and rest = "[]", THEN conjunct2, THEN conjunct2, THEN conjunct2] e
    by (simp add: blocks_def)
  from h A B C show ?thesis by simp
qed

text \<open>
  Claim C7. A return with a timeout error leaves the reader and the open handles as
  they were before the wait: \<open>waitForFile\<close> and \<open>WaitForFile\<close> return \<open>ErrWaitTimeout\<close>
  with the reader they were called with, a pass of \<open>Read\<close> that returns \<open>ErrWaitTimeout\<close>
  likewise, and the wait of \<open>Read\<close> (lines 203 to 214) returns \<open>ErrIdleTimeout\<close> with the
  reader, the buffer and the handles it was entered with. After such a return of \<open>Read\<close>
  the invariants of the reader hold, so the call can be made again.
\<close>

theorem timeout_keeps_state:
  "(waitForFile f r w = Returns ((n, Some ErrWaitTimeout), r', w') \<longrightarrow> r' = r \<and> fds w' = fds w) \<and>
   (WaitForFile_method r w = Returns (Some ErrWaitTimeout, r', w') \<longrightarrow> r' = r \<and> fds w' = fds w) \<and>
   (read_pass (p, r, w) = Returns (Done ((n, Some ErrWaitTimeout), p', r', w')) \<longrightarrow>
      r' = r \<and> fds w' = fds w \<and> p' = p) \<and>
   (read_wait (p, r, w) = Returns (Done ((n, Some ErrIdleTimeout), p', r', w')) \<longrightarrow>
      r' = r \<and> fds w' = fds w \<and> p' = p) \<and>
   (reader_inv r \<and> handle_inv r w \<and> Read r p w = Returns ((n, Some e), p', r', w') \<and>
    (e = ErrIdleTimeout \<or> e = ErrWaitTimeout) \<longrightarrow>
      reader_inv r' \<and> handle_inv r' w' \<and> n = 0 \<and> p' = p)"
proof -
  have A: "\<And>f n. waitForFile f r w = Returns ((n, Some ErrWaitTimeout), r', w') \<longrightarrow>
             r' = r \<and> fds w' = fds w"
    using waitForFile_Returns by blast
  have B: "WaitForFile_method r w = Returns (Some ErrWaitTimeout, r', w') \<longrightarrow> r' = r \<and> fds w' = fds w"
  proof
    assume "WaitForFile_method r w = Returns (Some ErrWaitTimeout, r', w')"
    then obtain n where "waitForFile True r w = Returns ((n, Some ErrWaitTimeout), r', w')"
      by (auto simp: WaitForFile_method_def split: outcome.splits)
    with A show "r' = r \<and> fds w' = fds w" by blast
  qed
  have C: "read_pass (p, r, w) = Returns (Done ((n, Some ErrWaitTimeout), p', r', w')) \<longrightarrow>
      r' = r \<and> fds w' = fds w \<and> p' = p"
  proof
    assume a: "read_pass (p, r, w) = Returns (Done ((n, Some ErrWaitTimeout), p', r', w'))"
    then show "r' = r \<and> fds w' = fds w \<and> p' = p"
    proof (cases rule: read_pass_Done_cases)
      case (wait_err sz e r1 w1)
      with A [of False sz] show ?thesis by auto
    next
      case (trunc sz r1 w1)
      then show ?thesis by (auto dest: read_truncate_Done_shape)
    next
      case (data sz r1 w1 s2)
      obtain p2 r2 w2 where s2: "s2 = (p2, r2, w2)" by (cases s2) auto
      from read_data_Done_error [OF data(3) [unfolded s2]] show ?thesis by simp
    next
      case (wait sz r1 w1 s2 s3)
      obtain p3 r3 w3 where s3: "s3 = (p3, r3, w3)" by (cases s3) auto
      from read_wait_Done_error [OF wait(4) [unfolded s3]] show ?thesis by simp
    qed
  qed
  have D: "read_wait (p, r, w) = Returns (Done ((n, Some ErrIdleTimeout), p', r', w')) \<longrightarrow>
      r' = r \<and> fds w' = fds w \<and> p' = p"
    using read_wait_Done by blast
  have E: "reader_inv r \<and> handle_inv r w \<and> Read r p w = Returns ((n, Some e), p', r', w') \<and>
    (e = ErrIdleTimeout \<or> e = ErrWaitTimeout) \<longrightarrow>
      reader_inv r' \<and> handle_inv r' w' \<and> n = 0 \<and> p' = p"
    using Read_Returns [of r w p n "Some e" p' r' w'] by auto
  from A [of f n] B C D E show ?thesis by blast
qed

theorem timeout_keeps_state_witness:
  "(case read_wait (replicate 128 0, ex_reader (WithIdleTimeout 1000000000 ex_options) (Some 3) 13,
                    ex_world hello [3 \<mapsto> (1, 13)] [TimerFires]) of
      Returns (Done ((n, err), p', r', w')) \<Rightarrow>
        err = Some ErrIdleTimeout \<and>
        r' = ex_reader (WithIdleTimeout 1000000000 ex_options) (Some 3) 13 \<and>
        fds w' = fds (ex_world hello [3 \<mapsto> (1, 13)] [TimerFires]) \<and> fds w' 3 = Some (1, 13)
    | _ \<Rightarrow> False) \<and>
   (case WaitForFile_method (ex_reader (WithWaitForFile True 1000000000 ex_options) None 0)
           (ex_removed (ex_world hello Map.empty [TimerFires])) of
      Returns (err, r', w') \<Rightarrow>
        err = Some ErrWaitTimeout \<and>
        r' = ex_reader (WithWaitForFile True 1000000000 ex_options) None 0 \<and>
        fds w' = fds (ex_removed (ex_world hello Map.empty [TimerFires]))
    | _ \<Rightarrow> False)"
proof -
  let ?p = "replicate 128 (0 :: byte)"
  let ?r = "ex_reader (WithIdleTimeout 1000000000 ex_options) (Some 3) 13"
  let ?w = "ex_world hello [3 \<mapsto> (1, 13)] [TimerFires]"
  let ?r2 = "ex_reader (WithWaitForFile True 1000000000 ex_options) None 0"
  let ?w2 = "ex_removed (ex_world hello Map.empty [TimerFires])"
  have "case read_wait (?p, ?r, ?w) of
          Returns (Done ((n, err), p', r', w')) \<Rightarrow> err = Some ErrIdleTimeout
        | _ \<Rightarrow> False"
    by code_simp
  then obtain n p' r' w' where
    a: "read_wait (?p, ?r, ?w) = Returns (Done ((n, Some ErrIdleTimeout), p', r', w'))"
    by (auto split: outcome.splits step.splits)
  from timeout_keeps_state [of _ ?r ?w n r' w' ?p p', THEN conjunct2, THEN conjunct2,
      THEN conjunct2, THEN conjunct1] a
  have b: "r' = ?r \<and> fds w' = fds ?w" by simp
  have c: "fds ?w 3 = Some (1, 13)" by (simp add: ex_world_def)
  have "case WaitForFile_method ?r2 ?w2 of
          Returns (err, r', w') \<Rightarrow> err = Some ErrWaitTimeout
        | _ \<Rightarrow> False"
    by code_simp
  then obtain r2' w2' where
    a2: "WaitForFile_method ?r2 ?w2 = Returns (Some ErrWaitTimeout, r2', w2')"
    by (auto split: outcome.splits)
  from timeout_keeps_state [of _ ?r2 ?w2 _ r2' w2', THEN conjunct2, THEN conjunct1] a2
  have b2: "r2' = ?r2 \<and> fds w2' = fds ?w2" by simp
  from a b c a2 b2 show ?thesis by simp
qed

text \<open>
  Claim C8, at the input where the code departs from it. \<open>Close\<close> returns the error of
  the watcher's \<open>Close\<close> before it reaches \<open>closeFile\<close> (lines 76 to 78): the reader's
  handle is still set and its descriptor is still open. (\<open>Close_Returns\<close>: without that
  error both are released.)
\<close>

theorem Close_error_leaves_file_open:
  "(case Close (ex_reader ex_options (Some 3) 13)
           ((ex_world hello [3 \<mapsto> (1, 13)] [])\<lparr>watcher_close_error := Some (WatcherError 1)\<rparr>) of
      Returns (err, r', w') \<Rightarrow>
        err = Some (WatcherError 1) \<and> watcher r' = None \<and> file' r' = Some 3 \<and>
        fds w' 3 = Some (1, 13)
    | Blocks \<Rightarrow> False
    | Panics \<Rightarrow> False)"
  by code_simp

text \<open>
  Claim C9. After construction and any sequence of \<open>Read\<close>, \<open>WaitForFile\<close> and \<open>Close\<close>
  (and changes to the file system by others in between) the offset is not negative, it
  is 0 when the reader has no handle, and it is the position of the handle when it has
  one. \<open>openFile\<close>, when it opens a handle, leaves the offset at 0, and \<open>closeFile\<close>
  clears the handle and the offset together.
\<close>

theorem offset_invariant:
  assumes "NewTailingReader Dir fp opts w0 = (Inr r0, w1)"
    and "exec calls r0 w1 = Returns (r, w)"
  shows "0 \<le> offset r \<and> (file' r = None \<longrightarrow> offset r = 0) \<and> handle_inv r w \<and>
         (\<forall>ra wa e rb wb. openFile ra wa = (e, rb, wb) \<and> file' ra = None \<and> file' rb \<noteq> None
            \<longrightarrow> offset rb = 0) \<and>
         (\<forall>ra wa e rb wb. closeFile ra wa = (e, rb, wb) \<and> file' ra \<noteq> None
            \<longrightarrow> file' rb = None \<and> offset rb = 0)"
proof -
  from assms(1) have "file' r0 = None" "offset r0 = 0"
    by (auto simp: NewTailingReader_def Let_def split: option.splits)
  then have "reader_inv r0" "handle_inv r0 w1"
    by (simp_all add: reader_inv_def handle_inv_def)
  from exec_inv [OF this assms(2)] have A: "reader_inv r" "handle_inv r w" by auto
  have B: "\<forall>ra wa e rb wb. openFile ra wa = (e, rb, wb) \<and> file' ra = None \<and> file' rb \<noteq> None
            \<longrightarrow> offset rb = 0"
    by (auto simp: openFile_def split: prod.splits sum.splits)
  have C: "\<forall>ra wa e rb wb. closeFile ra wa = (e, rb, wb) \<and> file' ra \<noteq> None
            \<longrightarrow> file' rb = None \<and> offset rb = 0"
    by (auto simp: closeFile_def split: prod.splits)
  from A B C show ?thesis unfolding reader_inv_def by blast
qed

theorem offset_invariant_witness:
  "(case NewTailingReader (\<lambda>p. ex_dir) ex_path [WithIdleTimeout 1000000000] (ex_world hello Map.empty []) of
      (Inr r0, w1) \<Rightarrow>
        (case exec [CallRead (replicate 8 0), CallRead (replicate 8 0), CallWaitForFile] r0 w1 of
           Returns (r, w) \<Rightarrow>
             offset r = 13 \<and> file' r = Some 4 \<and> 0 \<le> offset r \<and> handle_inv r w
         | _ \<Rightarrow> False) \<and>
        (case exec [CallRead (replicate 8 0), Elsewhere (FsTruncate ex_path 0),
                    CallRead (replicate 8 0), CallClose] r0
                (w1\<lparr>feed := [TimerFires]\<rparr>) of
           Returns (r, w) \<Rightarrow> file' r = None \<and> offset r = 0 \<and> handle_inv r w
         | _ \<Rightarrow> False)
    | _ \<Rightarrow> False)"
proof -
  let ?w0 = "ex_world hello Map.empty []"
  let ?c1 = "[CallRead (replicate 8 0), CallRead (replicate 8 0), CallWaitForFile]"
  let ?c2 = "[CallRead (replicate 8 0), Elsewhere (FsTruncate ex_path 0),
                    CallRead (replicate 8 0), CallClose]"
  have "case NewTailingReader (\<lambda>p. ex_dir) ex_path [WithIdleTimeout 1000000000] ?w0 of
      (Inr r0, w1) \<Rightarrow>
        (case exec ?c1 r0 w1 of Returns (r, w) \<Rightarrow> offset r = 13 \<and> file' r = Some 4
         | _ \<Rightarrow> False) \<and>
        (case exec ?c2 r0 (w1\<lparr>feed := [TimerFires]\<rparr>) of Returns (r, w) \<Rightarrow> file' r = None
         | _ \<Rightarrow> False)
    | _ \<Rightarrow> False"
    by code_simp
  then obtain r0 w1 ra wa rb wb where
    n: "NewTailingReader (\<lambda>p. ex_dir) ex_path [WithIdleTimeout 1000000000] ?w0 = (Inr r0, w1)"
    and e1: "exec ?c1 r0 w1 = Returns (ra, wa)" and v1: "offset ra = 13" "file' ra = Some 4"
    and e2: "exec ?c2 r0 (w1\<lparr>feed := [TimerFires]\<rparr>) = Returns (rb, wb)" and v2: "file' rb = None"
    by (auto split: prod.splits sum.splits outcome.splits)
  have n2: "NewTailingReader (\<lambda>p. ex_dir) ex_path [WithIdleTimeout 1000000000] (?w0\<lparr>feed := [TimerFires]\<rparr>)
              = (Inr r0, w1\<lparr>feed := [TimerFires]\<rparr>)"
    using n by (auto simp: NewTailingReader_def Let_def ex_world_def split: option.splits)
  from offset_invariant [OF n e1] have a: "0 \<le> offset ra \<and> handle_inv ra wa" by simp
  from offset_invariant [OF n2 e2] v2 have b: "offset rb = 0 \<and> handle_inv rb wb" by simp
  from n e1 v1 e2 v2 a b show ?thesis by simp
qed

end
